theory Spec2Isabelle
  imports Main "HOL-Library.Word"
begin

unbundle bit_operations_syntax

chapter \<open>Definitions: the embedded code\<close>

section \<open>Peer manager: reconnect with retry (node/peers/peers.go)\<close>

text \<open>
  \<^verbatim>\<open>time.Duration\<close> is an \<^verbatim>\<open>int64\<close> count of nanoseconds. The constants are those of
  the \<^verbatim>\<open>const\<close> block of peers.go and of package \<^verbatim>\<open>time\<close>.
\<close>

type_synonym duration = "64 word"

definition second :: duration where
  "second = 1000000000"

definition minute :: duration where
  "minute = 60 * second"

definition maxRetries :: nat where
  "maxRetries = 500"

definition baseReconnectDelay :: duration where
  "baseReconnectDelay = 2 * second"

text \<open>
  The delay computed at the top of each iteration of \<^verbatim>\<open>reconnectWithRetry\<close>:
  \<^verbatim>\<open>
    delay := baseReconnectDelay * (1 << attempt)
    if delay > 1*time.Minute {
        delay = 1 * time.Minute // Cap delay at 1 minute
    }
  \<close>
  The untyped constant \<^verbatim>\<open>1\<close> takes the type of the other operand, \<^verbatim>\<open>time.Duration\<close>,
  so both the shift and the product are 64-bit and wrap around; the comparison is signed.
\<close>

definition reconnectDelay :: "nat \<Rightarrow> duration" where
  "reconnectDelay attempt =
     (let delay = baseReconnectDelay * push_bit attempt 1
      in if minute <s delay then minute else delay)"

text \<open>
  What one run of the loop does to the outside world: it dials the peer
  (\<^verbatim>\<open>pm.c.Connect\<close>) and it waits (\<^verbatim>\<open>time.After(delay)\<close>).
\<close>

datatype event = Dial nat | Sleep duration

datatype outcome = Reconnected | Shutdown | GaveUp

text \<open>
  The loop \<^verbatim>\<open>for attempt := range maxRetries\<close>, as a recursion over the attempt numbers
  still to run. The environment is given by two functions of the attempt number:
  \<open>connect attempt\<close> holds when \<^verbatim>\<open>Connect\<close> returns no error at that attempt, and
  \<open>done attempt\<close> holds when the \<^verbatim>\<open>select\<close> after the failed attempt takes the
  \<^verbatim>\<open>pm.done\<close> branch.
\<close>

fun reconnectLoop :: "(nat \<Rightarrow> bool) \<Rightarrow> (nat \<Rightarrow> bool) \<Rightarrow> nat list \<Rightarrow> event list \<times> outcome" where
  "reconnectLoop connect done [] = ([], GaveUp)"
| "reconnectLoop connect done (attempt # rest) =
     (if connect attempt then ([Dial attempt], Reconnected)
      else if done attempt then ([Dial attempt], Shutdown)
      else (case reconnectLoop connect done rest of
              (evs, out) \<Rightarrow> (Dial attempt # Sleep (reconnectDelay attempt) # evs, out)))"

definition reconnectWithRetry :: "(nat \<Rightarrow> bool) \<Rightarrow> (nat \<Rightarrow> bool) \<Rightarrow> event list \<times> outcome" where
  "reconnectWithRetry connect done = reconnectLoop connect done [0..<maxRetries]"

fun dials :: "event list \<Rightarrow> nat list" where
  "dials [] = []"
| "dials (Dial a # evs) = a # dials evs"
| "dials (Sleep d # evs) = dials evs"

fun sleeps :: "event list \<Rightarrow> duration list" where
  "sleeps [] = []"
| "sleeps (Dial a # evs) = sleeps evs"
| "sleeps (Sleep d # evs) = d # sleeps evs"

section \<open>Protocol codecs (package node, protocol messages)\<close>

text \<open>
  Bytes are 8-bit words. \<^verbatim>\<open>types.Hash\<close> is the array type \<^verbatim>\<open>[32]byte\<close>: here a byte
  list, whose length 32 is the invariant \<open>wf_Hash\<close> of every value of the Go type.
\<close>

type_synonym byte = "8 word"

type_synonym Hash = "byte list"

definition HashLen :: nat where
  "HashLen = 32"

definition wf_Hash :: "Hash \<Rightarrow> bool" where
  "wf_Hash h = (length h = HashLen)"

definition zeroHash :: Hash where
  "zeroHash = replicate HashLen 0"

text \<open>
  The errors of the modelled code. \<open>ErrOther\<close> stands for an error of a collaborator
  (a stream's deadline, the account store, the engine), named by its message.
\<close>

datatype error =
    EOF
  | ErrUnexpectedEOF
  | ErrLeaderSigLength
  | ErrDataLength
  | ErrHashLength
  | ErrNoResponse
  | ErrNotFound
  | ErrInsufficientFee
  | ErrNilPointer
  | ErrOther string

text \<open>
  \<^verbatim>\<open>binary.LittleEndian\<close>: \<open>le_bytes 8\<close> is \<^verbatim>\<open>PutUint64\<close>/\<^verbatim>\<open>AppendUint64(nil, v)\<close>,
  \<open>le_bytes 4\<close> is \<^verbatim>\<open>PutUint32\<close>; \<open>le_word\<close> is \<^verbatim>\<open>Uint64\<close>/\<^verbatim>\<open>Uint32\<close> on a slice of
  that many bytes. The conversions \<^verbatim>\<open>uint64(int64)\<close> and back keep the bits, so an
  \<^verbatim>\<open>int64\<close> and a \<^verbatim>\<open>uint64\<close> are both \<open>64 word\<close>, read by \<open>sint\<close> or \<open>unat\<close>.
\<close>

fun le_bytes :: "nat \<Rightarrow> 'a::len word \<Rightarrow> byte list" where
  "le_bytes 0 v = []"
| "le_bytes (Suc n) v = ucast v # le_bytes n (drop_bit 8 v)"

fun le_word :: "byte list \<Rightarrow> 'a::len word" where
  "le_word [] = 0"
| "le_word (b # bs) = ucast b OR push_bit 8 (le_word bs)"

text \<open>
  \<^verbatim>\<open>copy(buf[off:], src)\<close>, and a write through a sub-slice \<^verbatim>\<open>buf[off:off+len(src)]\<close>:
  as many elements as fit are overwritten, the length of \<open>buf\<close> stays.
\<close>

definition copy_at :: "nat \<Rightarrow> 'a list \<Rightarrow> 'a list \<Rightarrow> 'a list" where
  "copy_at off src buf =
     take off buf @ take (length buf - off) src @ drop (off + length src) buf"

text \<open>
  An \<^verbatim>\<open>io.Reader\<close>: the bytes it still delivers, and the error its \<^verbatim>\<open>Read\<close> returns once
  they are used up (\<open>EOF\<close> for \<^verbatim>\<open>bytes.NewReader\<close> and for a stream the peer closed).
  \<^verbatim>\<open>io.ReadFull(r, buf)\<close> with \<^verbatim>\<open>len(buf) = n\<close> returns the bytes read, the error and the
  reader left; \<^verbatim>\<open>binary.Read\<close> of a fixed-size integer reads its bytes the same way.
\<close>

type_synonym reader = "byte list \<times> error"

definition NewReader :: "byte list \<Rightarrow> reader" where
  "NewReader data = (data, EOF)"

definition ReadFull :: "nat \<Rightarrow> reader \<Rightarrow> byte list \<times> error option \<times> reader" where
  "ReadFull n rd =
     (case rd of (bs, e) \<Rightarrow>
        if n \<le> length bs then (take n bs, None, (drop n bs, e))
        else (bs, Some (if e = EOF \<and> bs \<noteq> [] then ErrUnexpectedEOF else e), ([], e)))"

subsection \<open>blockAnnMsg\<close>

record blockAnnMsg =
  Hash :: Hash
  Height :: "64 word"
  AppHash :: Hash
  LeaderSig :: "byte list"

definition wf_blockAnnMsg :: "blockAnnMsg \<Rightarrow> bool" where
  "wf_blockAnnMsg m = (wf_Hash (blockAnnMsg.Hash m) \<and> wf_Hash (blockAnnMsg.AppHash m))"

text \<open>\<^verbatim>\<open>WriteTo\<close> into a \<^verbatim>\<open>bytes.Buffer\<close>, whose writes do not fail: the bytes written.\<close>

definition blockAnnMsg_WriteTo :: "blockAnnMsg \<Rightarrow> byte list" where
  "blockAnnMsg_WriteTo m =
     blockAnnMsg.Hash m
     @ le_bytes 8 (blockAnnMsg.Height m)
     @ blockAnnMsg.AppHash m
     @ le_bytes 8 (word_of_nat (length (LeaderSig m)) :: 64 word)
     @ LeaderSig m"

definition blockAnnMsg_MarshalBinary :: "blockAnnMsg \<Rightarrow> byte list" where
  "blockAnnMsg_MarshalBinary m = blockAnnMsg_WriteTo m"

text \<open>
  \<^verbatim>\<open>ReadFrom\<close> writes the receiver \<open>m\<close> field by field and returns the count of bytes
  read and the error: here the receiver as left, the count, the error and the reader left.
\<close>

definition blockAnnMsg_ReadFrom ::
  "blockAnnMsg \<Rightarrow> reader \<Rightarrow> blockAnnMsg \<times> nat \<times> error option \<times> reader" where
  "blockAnnMsg_ReadFrom m r =
     (case ReadFull HashLen r of (hb, err1, r1) \<Rightarrow>
      let m1 = m\<lparr>blockAnnMsg.Hash := copy_at 0 hb (blockAnnMsg.Hash m)\<rparr>;
          n = length hb in
      case err1 of Some e \<Rightarrow> (m1, n, Some e, r1) | None \<Rightarrow>
     (case ReadFull 8 r1 of (ht, err2, r2) \<Rightarrow>
      case err2 of Some e \<Rightarrow> (m1, n, Some e, r2) | None \<Rightarrow>
      let m2 = m1\<lparr>blockAnnMsg.Height := le_word ht\<rparr>;
          n = n + 8 in
     (case ReadFull HashLen r2 of (ab, err3, r3) \<Rightarrow>
      let m3 = m2\<lparr>blockAnnMsg.AppHash := copy_at 0 ab (blockAnnMsg.AppHash m2)\<rparr> in
      case err3 of Some e \<Rightarrow> (m3, n + length ab, Some e, r3) | None \<Rightarrow>
      let n = n + length ab in
     (case ReadFull 8 r3 of (sl, err4, r4) \<Rightarrow>
      case err4 of Some e \<Rightarrow> (m3, n, Some e, r4) | None \<Rightarrow>
      let sigLen = (le_word sl :: 64 word);
          n = n + 8 in
      if 1000 < sigLen then (m3, n, Some ErrLeaderSigLength, r4) else
     (case ReadFull (unat sigLen) r4 of (sg, err5, r5) \<Rightarrow>
      let m5 = m3\<lparr>LeaderSig := copy_at 0 sg (replicate (unat sigLen) 0)\<rparr> in
      (m5, n + length sg, err5, r5))))))"

definition blockAnnMsg_UnmarshalBinary ::
  "blockAnnMsg \<Rightarrow> byte list \<Rightarrow> blockAnnMsg \<times> error option" where
  "blockAnnMsg_UnmarshalBinary m data =
     (case blockAnnMsg_ReadFrom m (NewReader data) of (m', n, err, r') \<Rightarrow> (m', err))"

subsection \<open>blockHeightReq and blockHashReq\<close>

record blockHeightReq =
  Height :: "64 word"

definition blockHeightReq_MarshalBinary :: "blockHeightReq \<Rightarrow> byte list" where
  "blockHeightReq_MarshalBinary r = le_bytes 8 (blockHeightReq.Height r)"

definition blockHeightReq_UnmarshalBinary ::
  "blockHeightReq \<Rightarrow> byte list \<Rightarrow> blockHeightReq \<times> error option" where
  "blockHeightReq_UnmarshalBinary r data =
     (if length data \<noteq> 8 then (r, Some ErrDataLength)
      else (r\<lparr>blockHeightReq.Height := le_word data\<rparr>, None))"

record blockHashReq =
  Hash :: Hash

definition blockHashReq_MarshalBinary :: "blockHashReq \<Rightarrow> byte list" where
  "blockHashReq_MarshalBinary r = blockHashReq.Hash r"

definition blockHashReq_UnmarshalBinary ::
  "blockHashReq \<Rightarrow> byte list \<Rightarrow> blockHashReq \<times> error option" where
  "blockHashReq_UnmarshalBinary r data =
     (if length data \<noteq> HashLen then (r, Some ErrHashLength)
      else (r\<lparr>blockHashReq.Hash := copy_at 0 data (blockHashReq.Hash r)\<rparr>, None))"

subsection \<open>snapshotChunkReq and snapshotReq\<close>

record snapshotChunkReq =
  Height :: "64 word"
  Format :: "32 word"
  Index :: "32 word"
  Hash :: Hash

text \<open>
  \<^verbatim>\<open>
    buf := make([]byte, 8+4+4+types.HashLen)
    binary.LittleEndian.PutUint64(buf[:8], r.Height)
    binary.LittleEndian.PutUint32(buf[8:12], r.Format)
    binary.LittleEndian.PutUint32(buf[8:12], r.Index)
    copy(buf[12:], r.Hash[:])
  \<close>
\<close>

definition snapshotChunkReq_MarshalBinary :: "snapshotChunkReq \<Rightarrow> byte list" where
  "snapshotChunkReq_MarshalBinary r =
     (let buf = replicate (8 + 4 + 4 + HashLen) 0;
          buf = copy_at 0 (le_bytes 8 (snapshotChunkReq.Height r)) buf;
          buf = copy_at 8 (le_bytes 4 (snapshotChunkReq.Format r)) buf;
          buf = copy_at 8 (le_bytes 4 (snapshotChunkReq.Index r)) buf;
          buf = copy_at 12 (snapshotChunkReq.Hash r) buf
      in buf)"

definition snapshotChunkReq_UnmarshalBinary ::
  "snapshotChunkReq \<Rightarrow> byte list \<Rightarrow> snapshotChunkReq \<times> error option" where
  "snapshotChunkReq_UnmarshalBinary r data =
     (if length data \<noteq> 8 + 4 + HashLen then (r, Some ErrDataLength)
      else (r\<lparr>snapshotChunkReq.Height := le_word (take 8 data),
               snapshotChunkReq.Index := le_word (take 4 (drop 8 data)),
               snapshotChunkReq.Hash := copy_at 0 (drop 12 data) (snapshotChunkReq.Hash r)\<rparr>,
            None))"

definition snapshotChunkReq_ReadFrom ::
  "snapshotChunkReq \<Rightarrow> reader \<Rightarrow> snapshotChunkReq \<times> nat \<times> error option \<times> reader" where
  "snapshotChunkReq_ReadFrom r rd =
     (case ReadFull 8 rd of (hb, err1, rd1) \<Rightarrow>
      case err1 of Some e \<Rightarrow> (r, 0, Some e, rd1) | None \<Rightarrow>
      let r1 = r\<lparr>snapshotChunkReq.Height := le_word hb\<rparr> in
     (case ReadFull 4 rd1 of (ib, err2, rd2) \<Rightarrow>
      case err2 of Some e \<Rightarrow> (r1, 8, Some e, rd2) | None \<Rightarrow>
      let r2 = r1\<lparr>snapshotChunkReq.Index := le_word ib\<rparr> in
     (case ReadFull HashLen rd2 of (xb, err3, rd3) \<Rightarrow>
      (r2\<lparr>snapshotChunkReq.Hash := copy_at 0 xb (snapshotChunkReq.Hash r2)\<rparr>,
       8 + 4 + length xb, err3, rd3))))"

record snapshotReq =
  Height :: "64 word"
  Format :: "32 word"

definition snapshotReq_MarshalBinary :: "snapshotReq \<Rightarrow> byte list" where
  "snapshotReq_MarshalBinary r =
     (let buf = replicate (8 + 4) 0;
          buf = copy_at 0 (le_bytes 8 (snapshotReq.Height r)) buf;
          buf = copy_at 8 (le_bytes 4 (snapshotReq.Format r)) buf
      in buf)"

definition snapshotReq_UnmarshalBinary ::
  "snapshotReq \<Rightarrow> byte list \<Rightarrow> snapshotReq \<times> error option" where
  "snapshotReq_UnmarshalBinary r data =
     (if length data \<noteq> 8 + 4 then (r, Some ErrDataLength)
      else (r\<lparr>snapshotReq.Height := le_word (take 8 data),
               snapshotReq.Format := le_word (take 4 (drop 8 data))\<rparr>, None))"

subsection \<open>Sample messages\<close>

definition msg_small :: blockAnnMsg where
  "msg_small = \<lparr>blockAnnMsg.Hash = zeroHash, blockAnnMsg.Height = 7, blockAnnMsg.AppHash = zeroHash, blockAnnMsg.LeaderSig = [1, 2, 3]\<rparr>"

definition msg_zero :: blockAnnMsg where
  "msg_zero = \<lparr>blockAnnMsg.Hash = zeroHash, blockAnnMsg.Height = 0, blockAnnMsg.AppHash = zeroHash, blockAnnMsg.LeaderSig = []\<rparr>"

definition msg_oversize :: blockAnnMsg where
  "msg_oversize = \<lparr>blockAnnMsg.Hash = zeroHash, blockAnnMsg.Height = 7, blockAnnMsg.AppHash = zeroHash, blockAnnMsg.LeaderSig = replicate 1001 0\<rparr>"

subsection \<open>The response reader\<close>

text \<open>
  \<^verbatim>\<open>io.ReadAll(io.LimitReader(rd, limit))\<close>: the limited reader answers \<open>EOF\<close> once
  \<open>limit\<close> bytes have gone through (at once when \<open>limit \<le> 0\<close>), without asking \<open>rd\<close>
  again; \<^verbatim>\<open>ReadAll\<close> takes \<open>EOF\<close> as the end and returns any other error. The limit is an
  \<^verbatim>\<open>int64\<close>, on which the code does no arithmetic: an \<open>int\<close> here.
\<close>

definition ReadAll_LimitReader :: "reader \<Rightarrow> int \<Rightarrow> byte list \<times> error option" where
  "ReadAll_LimitReader rd limit =
     (case rd of (bs, e) \<Rightarrow>
        if nat limit \<le> length bs then (take (nat limit) bs, None)
        else (bs, if e = EOF then None else Some e))"

definition noData :: "byte list" where
  "noData = [0]"

definition readResp :: "reader \<Rightarrow> int \<Rightarrow> error + byte list" where
  "readResp rd limit =
     (case ReadAll_LimitReader rd limit of
        (resp, Some err) \<Rightarrow> Inl err
      | (resp, None) \<Rightarrow>
          if length resp = 0 then Inl ErrNoResponse
          else if resp = noData then Inl ErrNotFound
          else Inr resp)"

text \<open>
  \<^verbatim>\<open>request\<close> writes the request and reads the response; \<open>werr\<close> is the error of the
  write, if any. Both errors are wrapped with \<^verbatim>\<open>%w\<close>, which keeps their identity.
\<close>

definition request :: "error option \<Rightarrow> reader \<Rightarrow> int \<Rightarrow> error + byte list" where
  "request werr rd readLimit =
     (case werr of Some err \<Rightarrow> Inl err | None \<Rightarrow> readResp rd readLimit)"

section \<open>Memory block store (node/store/memstore/memstore.go)\<close>

text \<open>
  Of \<^verbatim>\<open>ktypes.Block\<close> the store reads the header's height (an \<^verbatim>\<open>int64\<close>) and the raw
  transactions. Its two hash functions, \<^verbatim>\<open>block.Hash()\<close> and \<^verbatim>\<open>types.HashBytes\<close>, are not
  part of the store: the operations take them as the parameters \<open>HB\<close> and \<open>HT\<close>.
\<close>

record Header =
  Height :: "64 word"

record Block =
  Header :: Header
  Txns :: "byte list list"

typedecl TxResult

record blockHashes =
  hash :: Hash
  appHash :: Hash

record MemBS =
  idx :: "Hash \<rightharpoonup> 64 word"
  hashes :: "64 word \<rightharpoonup> blockHashes"
  blocks :: "Hash \<rightharpoonup> Block"
  txResults :: "Hash \<rightharpoonup> TxResult list"
  txIds :: "Hash \<rightharpoonup> Hash"
  fetching :: "Hash \<rightharpoonup> bool"

definition NewMemBS :: MemBS where
  "NewMemBS = \<lparr>idx = Map.empty, hashes = Map.empty, blocks = Map.empty,
               txResults = Map.empty, txIds = Map.empty, fetching = Map.empty\<rparr>"

definition Have :: "Hash \<Rightarrow> MemBS \<Rightarrow> bool" where
  "Have blkid bs = (idx bs blkid \<noteq> None)"

text \<open>\<^verbatim>\<open>Store\<close> always returns \<^verbatim>\<open>nil\<close>; the model returns the store as changed.\<close>

definition Store ::
  "(Block \<Rightarrow> Hash) \<Rightarrow> (byte list \<Rightarrow> Hash) \<Rightarrow> Block \<Rightarrow> Hash \<Rightarrow> MemBS \<Rightarrow> MemBS" where
  "Store HB HT block appHash' bs =
     (let blkHash = HB block;
          bs = bs\<lparr>blocks := (blocks bs)(blkHash \<mapsto> block)\<rparr>;
          bs = bs\<lparr>idx := (idx bs)(blkHash \<mapsto> Header.Height (Header block))\<rparr>;
          bs = bs\<lparr>hashes := (hashes bs)(Header.Height (Header block) \<mapsto>
                    \<lparr>hash = blkHash, appHash = appHash'\<rparr>)\<rparr>
      in fold (\<lambda>tx bs. bs\<lparr>txIds := (txIds bs)(HT tx \<mapsto> blkHash)\<rparr>) (Txns block) bs)"

text \<open>
  \<^verbatim>\<open>Best\<close> ranges over the map \<^verbatim>\<open>bs.hashes\<close>. Go visits every key once, in an order it
  does not specify: the order is the parameter \<open>order\<close>, and \<open>iteration_order\<close> says
  that a list is one of the orders the range statement may take.
  \<^verbatim>\<open>
    var bestHeight int64
    var bestHash, bestAppHash types.Hash
    for height, hashes := range bs.hashes {
        if height >= bestHeight {
            bestHeight = height
            bestHash = hashes.hash
            bestAppHash = hashes.appHash
        }
    }
    return bestHeight, bestHash, bestAppHash
  \<close>
\<close>

definition iteration_order :: "('k \<rightharpoonup> 'v) \<Rightarrow> 'k list \<Rightarrow> bool" where
  "iteration_order m ks = (distinct ks \<and> set ks = dom m)"

fun Best_loop ::
  "(64 word \<times> blockHashes) list \<Rightarrow> 64 word \<times> Hash \<times> Hash \<Rightarrow> 64 word \<times> Hash \<times> Hash" where
  "Best_loop [] best = best"
| "Best_loop ((height, hashes') # rest) (bestHeight, bestHash, bestAppHash) =
     (if sint bestHeight \<le> sint height
      then Best_loop rest (height, hash hashes', appHash hashes')
      else Best_loop rest (bestHeight, bestHash, bestAppHash))"

definition entries :: "('k \<rightharpoonup> 'v) \<Rightarrow> 'k list \<Rightarrow> ('k \<times> 'v) list" where
  "entries m ks = List.map_filter (\<lambda>k. map_option (Pair k) (m k)) ks"

definition Best :: "64 word list \<Rightarrow> MemBS \<Rightarrow> 64 word \<times> Hash \<times> Hash" where
  "Best order bs = Best_loop (entries (hashes bs) order) (0, zeroHash, zeroHash)"

text \<open>
  \<^verbatim>\<open>PreFetch\<close> returns whether to fetch, and a closure to run when the fetch is over. The
  closure is a function on the store: \<open>id\<close> for \<^verbatim>\<open>func() {}\<close>, and \<open>release blkid\<close> for
  the one that deletes \<open>blkid\<close> from \<^verbatim>\<open>bs.fetching\<close>. Every method holds the store's mutex
  for its whole body, so concurrent calls act one after the other, in some order.
\<close>

definition release :: "Hash \<Rightarrow> MemBS \<Rightarrow> MemBS" where
  "release blkid bs = bs\<lparr>fetching := (fetching bs)(blkid := None)\<rparr>"

definition PreFetch :: "Hash \<Rightarrow> MemBS \<Rightarrow> bool \<times> (MemBS \<Rightarrow> MemBS) \<times> MemBS" where
  "PreFetch blkid bs =
     (if idx bs blkid \<noteq> None then (False, id, bs)
      else if fetching bs blkid = Some True then (False, id, bs)
      else (True, release blkid, bs\<lparr>fetching := (fetching bs)(blkid \<mapsto> True)\<rparr>))"

text \<open>
  The calls that other goroutines may make on the store between two calls of interest:
  a \<^verbatim>\<open>PreFetch\<close> (its results dropped here), the run of a release closure that a
  \<^verbatim>\<open>PreFetch\<close> of that hash returned with \<^verbatim>\<open>true\<close>, and a \<^verbatim>\<open>Store\<close>.
\<close>

datatype MemBS_call = CallPreFetch Hash | CallRelease Hash | CallStore Block Hash

fun apply_call ::
  "(Block \<Rightarrow> Hash) \<Rightarrow> (byte list \<Rightarrow> Hash) \<Rightarrow> MemBS_call \<Rightarrow> MemBS \<Rightarrow> MemBS" where
  "apply_call HB HT (CallPreFetch h) bs = snd (snd (PreFetch h bs))"
| "apply_call HB HT (CallRelease h) bs = release h bs"
| "apply_call HB HT (CallStore b a) bs = Store HB HT b a bs"

definition apply_calls ::
  "(Block \<Rightarrow> Hash) \<Rightarrow> (byte list \<Rightarrow> Hash) \<Rightarrow> MemBS_call list \<Rightarrow> MemBS \<Rightarrow> MemBS" where
  "apply_calls HB HT calls bs = fold (apply_call HB HT) calls bs"

subsection \<open>Sample stores\<close>

text \<open>Two stand-ins for the hash functions, and a few blocks, for running the model.\<close>

definition sampleHB :: "Block \<Rightarrow> Hash" where
  "sampleHB b = replicate HashLen (ucast (Header.Height (Header b)))"

definition sampleHT :: "byte list \<Rightarrow> Hash" where
  "sampleHT tx = replicate HashLen (of_nat (length tx))"

definition block1 :: Block where
  "block1 = \<lparr>Header = \<lparr>Header.Height = 1\<rparr>, Txns = [[1, 2], [3]]\<rparr>"

definition block2 :: Block where
  "block2 = \<lparr>Header = \<lparr>Header.Height = 2\<rparr>, Txns = []\<rparr>"

definition blockNeg :: Block where
  "blockNeg = \<lparr>Header = \<lparr>Header.Height = - 1\<rparr>, Txns = []\<rparr>"

definition appHash1 :: Hash where
  "appHash1 = replicate HashLen 17"

definition appHash2 :: Hash where
  "appHash2 = replicate HashLen 18"

definition store1 :: MemBS where
  "store1 = Store sampleHB sampleHT block1 appHash1 NewMemBS"

section \<open>Dataset module: execution (internal/modules/datasets/execution.go)\<close>

text \<open>
  Of a transaction the module reads the sender, the signature's type, and the body's fee
  (a \<^verbatim>\<open>*big.Int\<close>: an \<open>int\<close>) and nonce (a \<^verbatim>\<open>uint64\<close>).
\<close>

record Signature =
  Type :: string

record TransactionBody =
  Fee :: int
  Nonce :: "64 word"

record Transaction =
  Signature :: Signature
  Body :: TransactionBody
  Sender :: "byte list"

record Spend =
  AccountPubKey :: "byte list"
  Amount :: int
  Nonce :: "64 word"

record User =
  PublicKey :: "byte list"
  AuthType :: string

record ExecutionResponse =
  Fee :: int
  GasUsed :: int

text \<open>
  The module's collaborators, which are interfaces in the source: the three pricers (each
  returns a price, possibly \<^verbatim>\<open>nil\<close>, and an error, possibly \<^verbatim>\<open>nil\<close>), the account store's
  \<^verbatim>\<open>Spend\<close> and the engine's three entry points (each returns an error or \<^verbatim>\<open>nil\<close>). A
  schema and an argument are opaque here: strings.
\<close>

record DatasetModule =
  PriceDeploy :: "string \<Rightarrow> int option \<times> error option"
  PriceDrop :: "string \<Rightarrow> int option \<times> error option"
  PriceExecute :: "string \<Rightarrow> string \<Rightarrow> string list list \<Rightarrow> int option \<times> error option"
  accountStore_Spend :: "Spend \<Rightarrow> error option"
  engine_CreateDataset :: "string \<Rightarrow> User \<Rightarrow> error option"
  engine_DropDataset :: "string \<Rightarrow> User \<Rightarrow> error option"
  engine_Execute :: "string \<Rightarrow> string \<Rightarrow> string list list \<Rightarrow> User \<Rightarrow> error option"

text \<open>The calls an operation makes on the account store and on the engine, in order.\<close>

datatype effect =
    SpendCall Spend
  | CreateDatasetCall string User
  | DropDatasetCall string User
  | ExecuteCall string string "string list list" User

fun spends :: "effect list \<Rightarrow> Spend list" where
  "spends [] = []"
| "spends (SpendCall s # es) = s # spends es"
| "spends (e # es) = spends es"

definition resp :: "int \<Rightarrow> ExecutionResponse" where
  "resp fee = \<lparr>ExecutionResponse.Fee = fee, GasUsed = 0\<rparr>"

definition getUserIdentifier :: "Transaction \<Rightarrow> User" where
  "getUserIdentifier tx = \<lparr>PublicKey = Sender tx, AuthType = Type (Signature tx)\<rparr>"

text \<open>
  \<^verbatim>\<open>compareAndSpend\<close> returns the error, here with the calls made. The error of the fee
  check wraps \<^verbatim>\<open>ErrInsufficientFee\<close> with \<^verbatim>\<open>%w\<close>, which keeps its identity.
\<close>

definition compareAndSpend ::
  "DatasetModule \<Rightarrow> int \<Rightarrow> Transaction \<Rightarrow> error option \<times> effect list" where
  "compareAndSpend u price tx =
     (if TransactionBody.Fee (Body tx) < price then (Some ErrInsufficientFee, [])
      else let s = \<lparr>AccountPubKey = Sender tx, Amount = price,
                     Spend.Nonce = TransactionBody.Nonce (Body tx)\<rparr>
           in (accountStore_Spend u s, [SpendCall s]))"

text \<open>
  The three operations return the response, the error and, here, the calls made. A pricer
  that returns neither a price nor an error makes \<^verbatim>\<open>tx.Body.Fee.Cmp(price)\<close> dereference
  \<^verbatim>\<open>nil\<close>: the operation panics, which is the value \<open>None\<close>. The test
  \<^verbatim>\<open>if err != nil\<close> after \<^verbatim>\<open>getUserIdentifier\<close> sees the \<^verbatim>\<open>nil\<close> error of
  \<^verbatim>\<open>compareAndSpend\<close> and never fires.
\<close>

definition Deploy ::
  "DatasetModule \<Rightarrow> string \<Rightarrow> Transaction
     \<Rightarrow> (ExecutionResponse \<times> error option \<times> effect list) option" where
  "Deploy u schema tx =
     (case PriceDeploy u schema of
        (price, Some err) \<Rightarrow>
          Some (resp (case price of None \<Rightarrow> 0 | Some p \<Rightarrow> p), Some err, [])
      | (None, None) \<Rightarrow> None
      | (Some price, None) \<Rightarrow>
          (case compareAndSpend u price tx of
             (Some err, effs) \<Rightarrow> Some (resp price, Some err, effs)
           | (None, effs) \<Rightarrow>
               let identifier = getUserIdentifier tx in
               Some (resp price, engine_CreateDataset u schema identifier,
                     effs @ [CreateDatasetCall schema identifier])))"

definition Drop ::
  "DatasetModule \<Rightarrow> string \<Rightarrow> Transaction
     \<Rightarrow> (ExecutionResponse \<times> error option \<times> effect list) option" where
  "Drop u dbid tx =
     (case PriceDrop u dbid of
        (price, Some err) \<Rightarrow>
          Some (resp (case price of None \<Rightarrow> 0 | Some p \<Rightarrow> p), Some err, [])
      | (None, None) \<Rightarrow> None
      | (Some price, None) \<Rightarrow>
          (case compareAndSpend u price tx of
             (Some err, effs) \<Rightarrow> Some (resp price, Some err, effs)
           | (None, effs) \<Rightarrow>
               let identifier = getUserIdentifier tx in
               Some (resp price, engine_DropDataset u dbid identifier,
                     effs @ [DropDatasetCall dbid identifier])))"

definition Execute ::
  "DatasetModule \<Rightarrow> string \<Rightarrow> string \<Rightarrow> string list list \<Rightarrow> Transaction
     \<Rightarrow> (ExecutionResponse \<times> error option \<times> effect list) option" where
  "Execute u dbid action args tx =
     (case PriceExecute u dbid action args of
        (price, Some err) \<Rightarrow>
          Some (resp (case price of None \<Rightarrow> 0 | Some p \<Rightarrow> p), Some err, [])
      | (None, None) \<Rightarrow> None
      | (Some price, None) \<Rightarrow>
          (case compareAndSpend u price tx of
             (Some err, effs) \<Rightarrow> Some (resp price, Some err, effs)
           | (None, effs) \<Rightarrow>
               let identifier = getUserIdentifier tx in
               Some (resp price, engine_Execute u dbid action args identifier,
                     effs @ [ExecuteCall dbid action args identifier])))"

subsection \<open>A sample module\<close>

definition sampleModule :: DatasetModule where
  "sampleModule =
     \<lparr>PriceDeploy = (\<lambda>schema. (Some 10, None)),
      PriceDrop = (\<lambda>dbid. (Some 10, None)),
      PriceExecute = (\<lambda>dbid action args. (Some 10, None)),
      accountStore_Spend = (\<lambda>s. None),
      engine_CreateDataset = (\<lambda>schema user. None),
      engine_DropDataset = (\<lambda>dbid user. None),
      engine_Execute = (\<lambda>dbid action args user. None)\<rparr>"

definition sampleTx :: "int \<Rightarrow> Transaction" where
  "sampleTx fee =
     \<lparr>Signature = \<lparr>Type = ''ed25519''\<rparr>,
      Body = \<lparr>TransactionBody.Fee = fee, TransactionBody.Nonce = 1\<rparr>,
      Sender = [65]\<rparr>"

section \<open>Mempool admission\<close>

text \<open>
  Modelled from the spec: the mempool's admission (\<^verbatim>\<open>mempool.applyTransaction\<close>) is not
  among the sources, only its test \<^verbatim>\<open>Test_MempoolWithoutGas\<close> is. A pending transaction
  as the spec's data model and the test's \<^verbatim>\<open>newTx\<close> have it; nonces are the spec's
  numbers.
\<close>

record PendingTx =
  sender :: string
  nonce :: nat
  fee :: int
  payload :: string

text \<open>
  Modelled from the spec: the account view of a sender (section 4.4, step 2): the balance
  left after the transactions admitted so far, the on-chain nonce \<open>N\<close>, and the
  admitted-nonce tracker, kept as \<open>max_admitted_nonce_gap\<close>, the number of nonces
  admitted above \<open>N\<close>.
\<close>

record AccountView =
  balance :: int
  chainNonce :: nat
  admittedGap :: nat

text \<open>
  Modelled from the spec: the mempool, "keyed uniquely by tx hash", with the account views
  of the senders seen so far.
\<close>

record 'h Mempool =
  pending :: "'h \<rightharpoonup> PendingTx"
  views :: "string \<rightharpoonup> AccountView"

text \<open>Modelled from the spec: the rejections that the admission steps name.\<close>

datatype reject =
    DuplicateTx | UnknownSender | StaleNonce | OutOfOrderNonce | InsufficientBalance

text \<open>
  Modelled from the spec: "Load or initialize the account view for s" from the account
  store \<open>store\<close>, which maps a sender to its balance and on-chain nonce.
\<close>

definition loadView :: "(string \<rightharpoonup> int \<times> nat) \<Rightarrow> 'h Mempool \<Rightarrow> string \<Rightarrow> AccountView" where
  "loadView store mp s =
     (case views mp s of
        Some v \<Rightarrow> v
      | None \<Rightarrow>
          (case store s of
             Some (b, n) \<Rightarrow> \<lparr>balance = b, chainNonce = n, admittedGap = 0\<rparr>
           | None \<Rightarrow> \<lparr>balance = 0, chainNonce = 0, admittedGap = 0\<rparr>))"

text \<open>
  Modelled from the spec: the admission algorithm of section 4.4, steps 1 to 7, in the
  spec's order. \<open>hashTx\<close> is the transaction hash, \<open>gas\<close> says whether gas is enabled
  network-wide. The tracked account nonce of a sender is \<open>N\<close> plus the admitted gap.
\<close>

definition applyTransaction ::
  "(PendingTx \<Rightarrow> 'h) \<Rightarrow> bool \<Rightarrow> (string \<rightharpoonup> int \<times> nat) \<Rightarrow> PendingTx \<Rightarrow> 'h Mempool
     \<Rightarrow> reject + 'h Mempool" where
  "applyTransaction hashTx gas store t mp =
     (if pending mp (hashTx t) \<noteq> None then Inl DuplicateTx
      else let v = loadView store mp (sender t) in
      if gas \<and> views mp (sender t) = None \<and> store (sender t) = None then Inl UnknownSender
      else if nonce t \<le> chainNonce v then Inl StaleNonce
      else if nonce t > chainNonce v + admittedGap v + 1 then Inl OutOfOrderNonce
      else if gas \<and> fee t > balance v then Inl InsufficientBalance
      else Inr (mp\<lparr>pending := (pending mp)(hashTx t \<mapsto> t),
                  views := (views mp)(sender t \<mapsto>
                    v\<lparr>balance := balance v - fee t,
                      admittedGap := max (admittedGap v) (nonce t - chainNonce v)\<rparr>)\<rparr>))"

text \<open>
  Modelled from the spec: the nonce the mempool tracks for a sender, the on-chain nonce
  plus the admitted gap (what the test reads as \<^verbatim>\<open>m.accounts["A"].Nonce\<close>).
\<close>

definition trackedNonce :: "'h Mempool \<Rightarrow> string \<Rightarrow> nat option" where
  "trackedNonce mp s = map_option (\<lambda>v. chainNonce v + admittedGap v) (views mp s)"

text \<open>
  Modelled from the spec: a run of submissions, as the test makes them: a rejected
  transaction leaves the mempool as it was. The result lists, per submission, the
  rejection if any, and ends with the mempool.
\<close>

fun submitAll ::
  "(PendingTx \<Rightarrow> 'h) \<Rightarrow> bool \<Rightarrow> (string \<rightharpoonup> int \<times> nat) \<Rightarrow> PendingTx list \<Rightarrow> 'h Mempool
     \<Rightarrow> reject option list \<times> 'h Mempool" where
  "submitAll hashTx gas store [] mp = ([], mp)"
| "submitAll hashTx gas store (t # ts) mp =
     (case applyTransaction hashTx gas store t mp of
        Inl r \<Rightarrow> (case submitAll hashTx gas store ts mp of (rs, mp') \<Rightarrow> (Some r # rs, mp'))
      | Inr mp1 \<Rightarrow> (case submitAll hashTx gas store ts mp1 of (rs, mp') \<Rightarrow> (None # rs, mp')))"

text \<open>Modelled from the spec: the mempool before any submission.\<close>

definition emptyMempool :: "'h Mempool" where
  "emptyMempool = \<lparr>pending = Map.empty, views = Map.empty\<rparr>"

text \<open>Modelled from the spec: the test's \<^verbatim>\<open>newTx(t, nonce, sender)\<close>.\<close>

definition newTx :: "nat \<Rightarrow> string \<Rightarrow> PendingTx" where
  "newTx n s = \<lparr>sender = s, nonce = n, fee = 0, payload = ''random payload''\<rparr>"

chapter \<open>Theorems\<close>

section \<open>Reconnect delay\<close>

lemma reconnectDelay_small:
  assumes "attempt \<le> 4"
  shows "sint (reconnectDelay attempt) = 2000000000 * 2 ^ attempt"
proof -
  from assms have "attempt \<in> {0, 1, 2, 3, 4}" by auto
  then show ?thesis
    by (auto simp: reconnectDelay_def baseReconnectDelay_def second_def minute_def word_sless_alt)
qed

lemma shifted_base_zero:
  assumes "54 \<le> attempt"
  shows "baseReconnectDelay * push_bit attempt 1 = 0"
proof -
  have pow: "(2 :: 64 word) ^ (10 + attempt) = 0"
    using assms by simp
  have "baseReconnectDelay = 1953125 * 2 ^ 10"
    by (simp add: baseReconnectDelay_def second_def)
  moreover have "push_bit attempt (1 :: 64 word) = 2 ^ attempt"
    by (simp add: push_bit_eq_mult)
  ultimately have "baseReconnectDelay * push_bit attempt 1 = 1953125 * (2 ^ 10 * 2 ^ attempt)"
    by simp
  also have "\<dots> = 1953125 * 2 ^ (10 + attempt)"
    by (simp only: power_add)
  finally show ?thesis
    by (simp only: pow mult_zero_right)
qed

lemma reconnectDelay_zero:
  assumes "54 \<le> attempt"
  shows "reconnectDelay attempt = 0"
  unfolding reconnectDelay_def shifted_base_zero [OF assms]
  by (simp add: minute_def second_def word_sless_alt)

lemma reconnectDelay_le_minute: "sint (reconnectDelay attempt) \<le> 60000000000"
  by (simp add: reconnectDelay_def Let_def minute_def second_def word_sless_alt)

lemma reconnectDelay_upto_32:
  assumes "attempt \<le> 32"
  shows "sint (reconnectDelay attempt) = min (2000000000 * 2 ^ attempt) 60000000000"
proof -
  have "\<forall>k \<in> set [0..<33]. sint (reconnectDelay k) = min (2000000000 * 2 ^ k) 60000000000"
    by code_simp
  with assms show ?thesis by simp
qed

text \<open>
  C6. The claim: for every attempt \<open>k < 500\<close> the delay is \<open>min (2s * 2^k) 60s\<close>, always
  positive. The 64-bit product wraps around: at attempt 33 the delay is negative (so it is
  not capped, and \<^verbatim>\<open>time.After\<close> fires at once), and from attempt 54 on it is zero.
\<close>

theorem reconnectDelay_overflow:
  "sint (reconnectDelay 33) = - 1266874889709551616
   \<and> sint (reconnectDelay 33) \<noteq> min (2000000000 * 2 ^ 33) 60000000000
   \<and> reconnectDelay 54 = 0
   \<and> reconnectDelay 499 = 0"
  by (simp add: reconnectDelay_zero)
    (simp add: reconnectDelay_def baseReconnectDelay_def second_def minute_def word_sless_alt)

section \<open>Reconnect loop\<close>

lemma dials_append: "dials (xs @ ys) = dials xs @ dials ys"
  by (induction xs rule: dials.induct) simp_all

lemma reconnectLoop_dials_le:
  "length (dials (fst (reconnectLoop connect done as))) \<le> length as"
  by (induction as) (auto split: prod.splits)

lemma reconnectLoop_failures:
  assumes "\<forall>a \<in> set xs. \<not> connect a \<and> \<not> done a"
  shows "reconnectLoop connect done (xs @ ys) =
    (case reconnectLoop connect done ys of
       (evs, out) \<Rightarrow> (concat (map (\<lambda>a. [Dial a, Sleep (reconnectDelay a)]) xs) @ evs, out))"
  using assms by (induction xs) (auto split: prod.splits)

lemma dials_failures: "dials (concat (map (\<lambda>a. [Dial a, Sleep (reconnectDelay a)]) xs)) = xs"
  by (induction xs) simp_all

lemma upt_split: "k < n \<Longrightarrow> [0..<n] = [0..<k] @ k # [Suc k..<n]"
proof -
  assume "k < n"
  then have "[0..<n] = [0..<k] @ [k..<n]"
    using upt_add_eq_append [of 0 k "n - k"] by simp
  with \<open>k < n\<close> show ?thesis by (simp add: upt_conv_Cons)
qed

text \<open>
  C7. After a disconnect the reconnect loop dials the peer at most 500 times and then
  gives up; it stops earlier at the first successful connection or when shutdown is
  observed. The loop is a total function, so every run ends, and no run dials a 501st
  time.
\<close>

theorem reconnect_bounded:
  "length (dials (fst (reconnectWithRetry connect done))) \<le> 500
   \<and> ((\<forall>k<500. \<not> connect k \<and> \<not> done k) \<longrightarrow>
        dials (fst (reconnectWithRetry connect done)) = [0..<500]
        \<and> snd (reconnectWithRetry connect done) = GaveUp)
   \<and> (\<forall>k<500. (\<forall>j<k. \<not> connect j \<and> \<not> done j) \<and> connect k \<longrightarrow>
        dials (fst (reconnectWithRetry connect done)) = [0..<Suc k]
        \<and> snd (reconnectWithRetry connect done) = Reconnected)
   \<and> (\<forall>k<500. (\<forall>j<k. \<not> connect j \<and> \<not> done j) \<and> \<not> connect k \<and> done k \<longrightarrow>
        dials (fst (reconnectWithRetry connect done)) = [0..<Suc k]
        \<and> snd (reconnectWithRetry connect done) = Shutdown)"
proof (intro conjI allI impI)
  show "length (dials (fst (reconnectWithRetry connect done))) \<le> 500"
    using reconnectLoop_dials_le [of connect "done" "[0..<maxRetries]"]
    by (simp add: reconnectWithRetry_def maxRetries_def)
next
  assume "\<forall>k<500. \<not> connect k \<and> \<not> done k"
  then have "\<forall>a \<in> set [0..<maxRetries]. \<not> connect a \<and> \<not> done a"
    by (simp add: maxRetries_def)
  from reconnectLoop_failures [OF this, of "[]"]
  have *: "reconnectWithRetry connect done =
      (concat (map (\<lambda>a. [Dial a, Sleep (reconnectDelay a)]) [0..<maxRetries]), GaveUp)"
    by (simp add: reconnectWithRetry_def)
  show "dials (fst (reconnectWithRetry connect done)) = [0..<500]"
    by (simp add: * dials_failures maxRetries_def)
  show "snd (reconnectWithRetry connect done) = GaveUp"
    by (simp add: *)
next
  fix k assume k: "k < 500" and h: "(\<forall>j<k. \<not> connect j \<and> \<not> done j) \<and> connect k"
  then have f: "\<forall>a \<in> set [0..<k]. \<not> connect a \<and> \<not> done a" by simp
  have "[0..<maxRetries] = [0..<k] @ k # [Suc k..<maxRetries]"
    using k by (simp add: upt_split maxRetries_def)
  with reconnectLoop_failures [OF f, of "k # [Suc k..<maxRetries]"] h
  have *: "reconnectWithRetry connect done =
      (concat (map (\<lambda>a. [Dial a, Sleep (reconnectDelay a)]) [0..<k]) @ [Dial k], Reconnected)"
    by (simp add: reconnectWithRetry_def)
  show "dials (fst (reconnectWithRetry connect done)) = [0..<Suc k]"
    by (simp add: * dials_append dials_failures)
  show "snd (reconnectWithRetry connect done) = Reconnected"
    by (simp add: *)
next
  fix k assume k: "k < 500" and h: "(\<forall>j<k. \<not> connect j \<and> \<not> done j) \<and> \<not> connect k \<and> done k"
  then have f: "\<forall>a \<in> set [0..<k]. \<not> connect a \<and> \<not> done a" by simp
  have "[0..<maxRetries] = [0..<k] @ k # [Suc k..<maxRetries]"
    using k by (simp add: upt_split maxRetries_def)
  with reconnectLoop_failures [OF f, of "k # [Suc k..<maxRetries]"] h
  have *: "reconnectWithRetry connect done =
      (concat (map (\<lambda>a. [Dial a, Sleep (reconnectDelay a)]) [0..<k]) @ [Dial k], Shutdown)"
    by (simp add: reconnectWithRetry_def)
  show "dials (fst (reconnectWithRetry connect done)) = [0..<Suc k]"
    by (simp add: * dials_append dials_failures)
  show "snd (reconnectWithRetry connect done) = Shutdown"
    by (simp add: *)
qed

theorem reconnect_bounded_witness:
  "snd (reconnectWithRetry (\<lambda>k. False) (\<lambda>k. False)) = GaveUp
   \<and> length (dials (fst (reconnectWithRetry (\<lambda>k. False) (\<lambda>k. False)))) = 500
   \<and> dials (fst (reconnectWithRetry (\<lambda>k. k = 2) (\<lambda>k. False))) = [0, 1, 2]
   \<and> snd (reconnectWithRetry (\<lambda>k. k = 2) (\<lambda>k. False)) = Reconnected
   \<and> dials (fst (reconnectWithRetry (\<lambda>k. False) (\<lambda>k. k = 1))) = [0, 1]
   \<and> snd (reconnectWithRetry (\<lambda>k. False) (\<lambda>k. k = 1)) = Shutdown"
proof -
  have a: "\<forall>k<500::nat. \<not> False \<and> \<not> False" by simp
  have b: "(2::nat) < 500 \<and> (\<forall>j<2::nat. \<not> j = 2 \<and> \<not> False) \<and> (2::nat) = 2" by simp
  have c: "(1::nat) < 500 \<and> (\<forall>j<1::nat. \<not> False \<and> \<not> j = 1) \<and> \<not> False \<and> (1::nat) = 1" by simp
  have u2: "[0..<Suc 2] = [0, 1, 2]" by (simp add: upt_rec)
  have u1: "[0..<Suc 1] = [0, 1]" by (simp add: upt_rec)
  show ?thesis
    using reconnect_bounded [of "\<lambda>k. False" "\<lambda>k. False"]
      reconnect_bounded [of "\<lambda>k. k = 2" "\<lambda>k. False"]
      reconnect_bounded [of "\<lambda>k. False" "\<lambda>k. k = 1"] a b c u2 u1
    by (auto simp del: upt_Suc)
qed

section \<open>Protocol codecs\<close>

lemma length_le_bytes: "length (le_bytes n v) = n"
  by (induction n arbitrary: v) simp_all

lemma le_word_le_bytes: "le_word (le_bytes n v) = take_bit (8 * n) v"
proof (induction n arbitrary: v)
  case 0
  show ?case by simp
next
  case (Suc n)
  have "(ucast (ucast v :: byte) :: 'a word) OR push_bit 8 (take_bit (8 * n) (drop_bit 8 v))
      = take_bit (8 * Suc n) v"
    by (rule bit_word_eqI) (auto simp: bit_simps)
  with Suc show ?case by simp
qed

lemma Uint64_PutUint64: "le_word (le_bytes 8 (v :: 64 word)) = v"
  unfolding le_word_le_bytes by (simp add: take_bit_word_eq_self)

lemma Uint32_PutUint32: "le_word (le_bytes 4 (v :: 32 word)) = v"
  unfolding le_word_le_bytes by (simp add: take_bit_word_eq_self)

lemma length_copy_at: "length (copy_at off src buf) = length buf"
  by (auto simp: copy_at_def)

lemma copy_at_0_full: "length src = length buf \<Longrightarrow> copy_at 0 src buf = src"
  by (simp add: copy_at_def)

lemma ReadFull_append: "length xs = n \<Longrightarrow> ReadFull n (xs @ ys, e) = (xs, None, (ys, e))"
  by (simp add: ReadFull_def)

lemma blockHeightReq_roundtrip:
  "blockHeightReq_UnmarshalBinary r0 (blockHeightReq_MarshalBinary r) = (r, None)"
  by (simp add: blockHeightReq_UnmarshalBinary_def blockHeightReq_MarshalBinary_def
      length_le_bytes Uint64_PutUint64 del: le_bytes.simps)

lemma blockHashReq_roundtrip:
  assumes "wf_Hash (blockHashReq.Hash r)" "wf_Hash (blockHashReq.Hash r0)"
  shows "blockHashReq_UnmarshalBinary r0 (blockHashReq_MarshalBinary r) = (r, None)"
  using assms
  by (simp add: blockHashReq_UnmarshalBinary_def blockHashReq_MarshalBinary_def copy_at_0_full
      wf_Hash_def)

lemma snapshotReq_roundtrip:
  "snapshotReq_UnmarshalBinary r0 (snapshotReq_MarshalBinary r) = (r, None)"
proof -
  have enc: "snapshotReq_MarshalBinary r
      = le_bytes 8 (snapshotReq.Height r) @ le_bytes 4 (snapshotReq.Format r)"
    by (simp add: snapshotReq_MarshalBinary_def copy_at_def length_le_bytes del: le_bytes.simps)
  show ?thesis
    by (simp add: enc snapshotReq_UnmarshalBinary_def length_le_bytes Uint64_PutUint64
        Uint32_PutUint32 del: le_bytes.simps)
qed

lemma length_snapshotChunkReq_MarshalBinary:
  "length (snapshotChunkReq_MarshalBinary r) = 48"
  by (simp add: snapshotChunkReq_MarshalBinary_def length_copy_at HashLen_def Let_def)

lemma snapshotChunkReq_MarshalBinary_bytes:
  assumes "wf_Hash (snapshotChunkReq.Hash r)"
  shows "snapshotChunkReq_MarshalBinary r
     = le_bytes 8 (snapshotChunkReq.Height r) @ le_bytes 4 (snapshotChunkReq.Index r)
       @ snapshotChunkReq.Hash r @ [0, 0, 0, 0]"
  using assms
  by (simp add: snapshotChunkReq_MarshalBinary_def copy_at_def length_le_bytes HashLen_def
      wf_Hash_def Let_def replicate_add [symmetric] del: le_bytes.simps replicate_add)
   (simp add: numeral_eq_Suc)

lemma snapshotChunkReq_Unmarshal_Marshal:
  "snapshotChunkReq_UnmarshalBinary r0 (snapshotChunkReq_MarshalBinary r) = (r0, Some ErrDataLength)"
  by (simp add: snapshotChunkReq_UnmarshalBinary_def length_snapshotChunkReq_MarshalBinary HashLen_def)

lemma snapshotChunkReq_ReadFrom_Marshal:
  assumes "wf_Hash (snapshotChunkReq.Hash r)" "wf_Hash (snapshotChunkReq.Hash r0)"
  shows "snapshotChunkReq_ReadFrom r0 (NewReader (snapshotChunkReq_MarshalBinary r))
     = (r\<lparr>snapshotChunkReq.Format := snapshotChunkReq.Format r0\<rparr>, 44, None, ([0, 0, 0, 0], EOF))"
  using assms
  by (simp add: snapshotChunkReq_MarshalBinary_bytes snapshotChunkReq_ReadFrom_def NewReader_def
      ReadFull_append length_le_bytes Uint64_PutUint64 Uint32_PutUint32 copy_at_0_full
      wf_Hash_def HashLen_def del: le_bytes.simps)

lemma blockAnnMsg_ReadFrom_WriteTo:
  assumes "wf_blockAnnMsg m" and "length (LeaderSig m) \<le> 1000" and "wf_blockAnnMsg m0"
  shows "blockAnnMsg_ReadFrom m0 (blockAnnMsg_WriteTo m @ rest, e)
         = (m, 80 + length (LeaderSig m), None, (rest, e))"
proof -
  let ?n = "word_of_nat (length (LeaderSig m)) :: 64 word"
  have n: "unat ?n = length (LeaderSig m)"
    using assms(2) by (simp add: unat_of_nat)
  have le: "\<not> 1000 < ?n"
    using assms(2) n by (simp add: word_less_nat_alt)
  show ?thesis
    using assms n le
    by (simp add: blockAnnMsg_ReadFrom_def blockAnnMsg_WriteTo_def ReadFull_append
        length_le_bytes Uint64_PutUint64 copy_at_0_full HashLen_def wf_blockAnnMsg_def
        wf_Hash_def del: le_bytes.simps)
qed

lemma blockAnnMsg_roundtrip:
  assumes "wf_blockAnnMsg m" and "length (LeaderSig m) \<le> 1000" and "wf_blockAnnMsg m0"
  shows "blockAnnMsg_UnmarshalBinary m0 (blockAnnMsg_MarshalBinary m) = (m, None)"
  using blockAnnMsg_ReadFrom_WriteTo [OF assms, of "[]" EOF]
  by (simp add: blockAnnMsg_UnmarshalBinary_def blockAnnMsg_MarshalBinary_def NewReader_def)

lemma blockAnnMsg_oversize:
  assumes "wf_blockAnnMsg m" and "1000 < length (LeaderSig m)" and "length (LeaderSig m) < 2 ^ 64"
  shows "snd (blockAnnMsg_UnmarshalBinary m0 (blockAnnMsg_MarshalBinary m)) = Some ErrLeaderSigLength"
proof -
  let ?n = "word_of_nat (length (LeaderSig m)) :: 64 word"
  have n: "unat ?n = length (LeaderSig m)"
    using assms(3) by (simp add: unat_of_nat)
  have le: "1000 < ?n"
    using assms(2) n by (simp add: word_less_nat_alt)
  show ?thesis
    using assms n le
    by (simp add: blockAnnMsg_UnmarshalBinary_def blockAnnMsg_MarshalBinary_def NewReader_def
        blockAnnMsg_ReadFrom_def blockAnnMsg_WriteTo_def ReadFull_append
        length_le_bytes Uint64_PutUint64 copy_at_0_full HashLen_def wf_blockAnnMsg_def
        wf_Hash_def del: le_bytes.simps)
qed


lemma wf_msgs: "wf_blockAnnMsg msg_small" "wf_blockAnnMsg msg_zero" "wf_blockAnnMsg msg_oversize"
  by (simp_all add: wf_blockAnnMsg_def wf_Hash_def msg_small_def msg_zero_def msg_oversize_def zeroHash_def)

text \<open>
  C1. The claim: for each of the five message types and every value \<open>m\<close>, decoding the
  encoding of \<open>m\<close> succeeds and gives \<open>m\<close>. As amended: this holds for every
  \<^verbatim>\<open>blockAnnMsg\<close> whose leader signature has at most 1000 bytes and for every
  \<^verbatim>\<open>blockHeightReq\<close>, \<^verbatim>\<open>blockHashReq\<close> and \<^verbatim>\<open>snapshotReq\<close>, whatever the receiver
  held before. (The hypotheses on hashes are the array type \<^verbatim>\<open>[32]byte\<close>.)
\<close>

theorem codec_roundtrip:
  assumes "wf_blockAnnMsg m" and "length (LeaderSig m) \<le> 1000" and "wf_blockAnnMsg m0"
    and "wf_Hash (blockHashReq.Hash q)" and "wf_Hash (blockHashReq.Hash q0)"
  shows "blockAnnMsg_UnmarshalBinary m0 (blockAnnMsg_MarshalBinary m) = (m, None)
    \<and> blockHeightReq_UnmarshalBinary h0 (blockHeightReq_MarshalBinary h) = (h, None)
    \<and> blockHashReq_UnmarshalBinary q0 (blockHashReq_MarshalBinary q) = (q, None)
    \<and> snapshotReq_UnmarshalBinary s0 (snapshotReq_MarshalBinary s) = (s, None)"
  using assms
  by (simp add: blockAnnMsg_roundtrip blockHeightReq_roundtrip blockHashReq_roundtrip
      snapshotReq_roundtrip)

text \<open>The round trip at sample values of the four types.\<close>

theorem codec_roundtrip_witness:
  "wf_blockAnnMsg msg_small \<and> length (LeaderSig msg_small) \<le> 1000 \<and> wf_blockAnnMsg msg_zero
   \<and> wf_Hash (blockHashReq.Hash \<lparr>blockHashReq.Hash = replicate 32 9\<rparr>)
   \<and> wf_Hash (blockHashReq.Hash \<lparr>blockHashReq.Hash = zeroHash\<rparr>)
   \<and> blockAnnMsg_UnmarshalBinary msg_zero (blockAnnMsg_MarshalBinary msg_small) = (msg_small, None)
   \<and> blockHeightReq_UnmarshalBinary \<lparr>blockHeightReq.Height = 0\<rparr>
        (blockHeightReq_MarshalBinary \<lparr>blockHeightReq.Height = - 1\<rparr>)
      = (\<lparr>blockHeightReq.Height = - 1\<rparr>, None)
   \<and> blockHashReq_UnmarshalBinary \<lparr>blockHashReq.Hash = zeroHash\<rparr>
        (blockHashReq_MarshalBinary \<lparr>blockHashReq.Hash = replicate 32 9\<rparr>)
      = (\<lparr>blockHashReq.Hash = replicate 32 9\<rparr>, None)
   \<and> snapshotReq_UnmarshalBinary \<lparr>snapshotReq.Height = 0, snapshotReq.Format = 0\<rparr>
        (snapshotReq_MarshalBinary \<lparr>snapshotReq.Height = 10, snapshotReq.Format = 1\<rparr>)
      = (\<lparr>snapshotReq.Height = 10, snapshotReq.Format = 1\<rparr>, None)"
proof -
  have a: "wf_blockAnnMsg msg_small" "wf_blockAnnMsg msg_zero"
    by (simp_all add: wf_msgs)
  have b: "length (LeaderSig msg_small) \<le> 1000"
    by (simp add: msg_small_def)
  have c: "wf_Hash (blockHashReq.Hash \<lparr>blockHashReq.Hash = replicate 32 9\<rparr>)"
    "wf_Hash (blockHashReq.Hash \<lparr>blockHashReq.Hash = zeroHash\<rparr>)"
    by (simp_all add: wf_Hash_def zeroHash_def HashLen_def)
  from codec_roundtrip [OF a(1) b a(2) c] a b c show ?thesis
    by simp
qed

text \<open>
  Where the claim as stated fails: an announcement with a signature of 1001 bytes is
  encoded, and refused by the decoder's length guard; and the 48 bytes that
  \<^verbatim>\<open>snapshotChunkReq.MarshalBinary\<close> produces are refused by \<^verbatim>\<open>UnmarshalBinary\<close>, which
  takes 44 bytes only.
\<close>

theorem codec_roundtrip_counterexample:
  "blockAnnMsg_UnmarshalBinary msg_zero (blockAnnMsg_MarshalBinary msg_oversize)
     \<noteq> (msg_oversize, None)
   \<and> snd (blockAnnMsg_UnmarshalBinary msg_zero (blockAnnMsg_MarshalBinary msg_oversize))
     = Some ErrLeaderSigLength
   \<and> snapshotChunkReq_UnmarshalBinary \<lparr>snapshotChunkReq.Height = 0, snapshotChunkReq.Format = 0, snapshotChunkReq.Index = 0, snapshotChunkReq.Hash = zeroHash\<rparr>
       (snapshotChunkReq_MarshalBinary \<lparr>snapshotChunkReq.Height = 1, snapshotChunkReq.Format = 2, snapshotChunkReq.Index = 3, snapshotChunkReq.Hash = zeroHash\<rparr>)
     = (\<lparr>snapshotChunkReq.Height = 0, snapshotChunkReq.Format = 0, snapshotChunkReq.Index = 0, snapshotChunkReq.Hash = zeroHash\<rparr>, Some ErrDataLength)"
proof -
  have "snd (blockAnnMsg_UnmarshalBinary msg_zero (blockAnnMsg_MarshalBinary msg_oversize))
     = Some ErrLeaderSigLength"
    by (rule blockAnnMsg_oversize) (simp_all add: wf_msgs, simp_all add: msg_oversize_def)
  then show ?thesis
    by (auto simp: snapshotChunkReq_Unmarshal_Marshal)
qed

text \<open>
  C8. Decoding a block announcement from a stream whose signature-length field (the eight
  bytes at offset 72, little-endian) exceeds 1000 fails with the length error, and a
  decoding that returns no error leaves a leader signature of at most 1000 bytes.
\<close>

theorem blockAnnMsg_sig_limit:
  assumes "blockAnnMsg_ReadFrom m (bs, e) = (m', n, err, rd')"
  shows "(80 \<le> length bs \<and> 1000 < (le_word (take 8 (drop 72 bs)) :: 64 word)
            \<longrightarrow> err = Some ErrLeaderSigLength)
       \<and> (err = None \<longrightarrow> length (LeaderSig m') \<le> 1000)"
proof (intro conjI impI)
  assume "80 \<le> length bs \<and> 1000 < (le_word (take 8 (drop 72 bs)) :: 64 word)"
  then have len: "80 \<le> length bs"
    and big: "1000 < (le_word (take 8 (drop 72 bs)) :: 64 word)"
    by simp_all
  have r1: "ReadFull HashLen (bs, e) = (take 32 bs, None, (drop 32 bs, e))"
    using len by (simp add: ReadFull_def HashLen_def)
  have r2: "ReadFull 8 (drop 32 bs, e) = (take 8 (drop 32 bs), None, (drop 40 bs, e))"
    using len by (simp add: ReadFull_def)
  have r3: "ReadFull HashLen (drop 40 bs, e) = (take 32 (drop 40 bs), None, (drop 72 bs, e))"
    using len by (simp add: ReadFull_def HashLen_def)
  have r4: "ReadFull 8 (drop 72 bs, e) = (take 8 (drop 72 bs), None, (drop 80 bs, e))"
    using len by (simp add: ReadFull_def)
  from assms big show "err = Some ErrLeaderSigLength"
    by (simp add: blockAnnMsg_ReadFrom_def r1 r2 r3 r4 Let_def)
next
  assume "err = None"
  with assms show "length (LeaderSig m') \<le> 1000"
    by (auto simp: blockAnnMsg_ReadFrom_def Let_def length_copy_at word_less_nat_alt
        split: prod.splits option.splits if_splits)
qed


lemma sigfield_WriteTo:
  assumes "wf_blockAnnMsg m" and "length (LeaderSig m) < 2 ^ 64"
  shows "80 \<le> length (blockAnnMsg_WriteTo m)"
    and "unat (le_word (take 8 (drop 72 (blockAnnMsg_WriteTo m))) :: 64 word) = length (LeaderSig m)"
  using assms
  by (simp_all add: blockAnnMsg_WriteTo_def wf_blockAnnMsg_def wf_Hash_def HashLen_def
      length_le_bytes Uint64_PutUint64 unat_of_nat del: le_bytes.simps)

theorem blockAnnMsg_sig_limit_witness:
  "80 \<le> length (blockAnnMsg_MarshalBinary msg_oversize)
   \<and> 1000 < (le_word (take 8 (drop 72 (blockAnnMsg_MarshalBinary msg_oversize))) :: 64 word)
   \<and> fst (snd (snd (blockAnnMsg_ReadFrom msg_zero (blockAnnMsg_MarshalBinary msg_oversize, EOF))))
       = Some ErrLeaderSigLength
   \<and> fst (snd (snd (blockAnnMsg_ReadFrom msg_zero (blockAnnMsg_MarshalBinary msg_small, EOF))))
       = None
   \<and> length (LeaderSig (fst (blockAnnMsg_ReadFrom msg_zero (blockAnnMsg_MarshalBinary msg_small, EOF))))
       \<le> 1000"
proof -
  let ?big = "blockAnnMsg_ReadFrom msg_zero (blockAnnMsg_MarshalBinary msg_oversize, EOF)"
  let ?small = "blockAnnMsg_ReadFrom msg_zero (blockAnnMsg_MarshalBinary msg_small, EOF)"
  have len: "80 \<le> length (blockAnnMsg_MarshalBinary msg_oversize)"
    unfolding blockAnnMsg_MarshalBinary_def
    by (rule sigfield_WriteTo(1)) (simp_all add: wf_msgs, simp add: msg_oversize_def)
  have "unat (le_word (take 8 (drop 72 (blockAnnMsg_MarshalBinary msg_oversize))) :: 64 word)
      = length (LeaderSig msg_oversize)"
    unfolding blockAnnMsg_MarshalBinary_def
    by (rule sigfield_WriteTo(2)) (simp_all add: wf_msgs, simp add: msg_oversize_def)
  then have big: "1000 < (le_word (take 8 (drop 72 (blockAnnMsg_MarshalBinary msg_oversize))) :: 64 word)"
    by (simp add: word_less_nat_alt msg_oversize_def)
  have ok: "?small = (msg_small, 80 + length (LeaderSig msg_small), None, ([], EOF))"
    using blockAnnMsg_ReadFrom_WriteTo [of msg_small msg_zero "[]" EOF]
    by (simp add: wf_msgs blockAnnMsg_MarshalBinary_def) (simp add: msg_small_def)
  from blockAnnMsg_sig_limit
    [of msg_zero "blockAnnMsg_MarshalBinary msg_oversize" EOF
      "fst ?big" "fst (snd ?big)" "fst (snd (snd ?big))" "snd (snd (snd ?big))"]
    blockAnnMsg_sig_limit
    [of msg_zero "blockAnnMsg_MarshalBinary msg_small" EOF
      "fst ?small" "fst (snd ?small)" "fst (snd (snd ?small))" "snd (snd (snd ?small))"]
    len big ok
  show ?thesis by simp
qed

section \<open>The response reader\<close>

lemma readResp_eq:
  "readResp (body, e) limit =
     (if length body < nat limit \<and> e \<noteq> EOF then Inl e
      else let resp = take (nat limit) body in
        if resp = [] then Inl ErrNoResponse
        else if resp = [0] then Inl ErrNotFound
        else Inr resp)"
  by (auto simp: readResp_def ReadAll_LimitReader_def noData_def Let_def)

text \<open>
  C9. The claim: an empty stream gives the no-response error, a body equal to the single
  byte 0 the not-found error, and any other body is returned, truncated at the limit. As
  amended: the classification is of the body as truncated at the read limit (a stream
  that fails with another error before the limit gives that error); for a limit of at
  least 2 that is the claim's classification of the body itself. The single byte 0 is
  never returned as content, and no returned response is longer than the limit.
\<close>

theorem readResp_classification:
  "readResp (body, e) limit =
     (if length body < nat limit \<and> e \<noteq> EOF then Inl e
      else let resp = take (nat limit) body in
        if resp = [] then Inl ErrNoResponse
        else if resp = [0] then Inl ErrNotFound
        else Inr resp)
   \<and> (2 \<le> limit \<longrightarrow>
        readResp (body, EOF) limit =
          (if body = [] then Inl ErrNoResponse
           else if body = [0] then Inl ErrNotFound
           else Inr (take (nat limit) body)))
   \<and> readResp (body, e) limit \<noteq> Inr [0]
   \<and> (\<forall>resp. readResp (body, e) limit = Inr resp \<longrightarrow> int (length resp) \<le> limit)
   \<and> request None (body, e) limit = readResp (body, e) limit"
proof (intro conjI impI allI)
  show "readResp (body, e) limit =
     (if length body < nat limit \<and> e \<noteq> EOF then Inl e
      else let resp = take (nat limit) body in
        if resp = [] then Inl ErrNoResponse
        else if resp = [0] then Inl ErrNotFound
        else Inr resp)"
    by (rule readResp_eq)
next
  assume lim: "2 \<le> limit"
  have "take (nat limit) body = [0] \<longleftrightarrow> body = [0]"
  proof
    assume t: "take (nat limit) body = [0]"
    then have "length (take (nat limit) body) = 1" by simp
    with lim have "length body \<le> nat limit" by (simp add: min_def split: if_splits)
    with t show "body = [0]" by simp
  next
    assume "body = [0]"
    with lim show "take (nat limit) body = [0]" by (cases "nat limit") simp_all
  qed
  moreover have "take (nat limit) body = [] \<longleftrightarrow> body = []"
    using lim by simp
  ultimately show "readResp (body, EOF) limit =
          (if body = [] then Inl ErrNoResponse
           else if body = [0] then Inl ErrNotFound
           else Inr (take (nat limit) body))"
    by (simp add: readResp_eq Let_def)
next
  show "readResp (body, e) limit \<noteq> Inr [0]"
    by (simp add: readResp_eq Let_def)
next
  fix resp assume "readResp (body, e) limit = Inr resp"
  then have "resp = take (nat limit) body" and "resp \<noteq> []"
    by (auto simp: readResp_eq Let_def split: if_splits)
  then show "int (length resp) \<le> limit"
    by (cases "0 \<le> limit") auto
next
  show "request None (body, e) limit = readResp (body, e) limit"
    by (simp add: request_def)
qed

text \<open>
  With a limit of 1 the body \<open>[0, 1]\<close> is neither empty nor the single byte 0, yet it is
  answered with the not-found error; with a limit of 0 the body \<open>[0]\<close> is answered with
  the no-response error; and three bytes followed by a failure of the stream, under a
  limit of 10, are answered with that failure.
\<close>

theorem readResp_classification_counterexample:
  "readResp ([0, 1], EOF) 1 = Inl ErrNotFound
   \<and> readResp ([0, 1], EOF) 1 \<noteq> Inr (take 1 [0, 1])
   \<and> readResp ([0], EOF) 0 = Inl ErrNoResponse
   \<and> readResp ([1, 2, 3], ErrOther ''deadline exceeded'') 10 = Inl (ErrOther ''deadline exceeded'')"
  by (simp add: readResp_def ReadAll_LimitReader_def noData_def)

theorem readResp_classification_witness:
  "(2::int) \<le> 4
   \<and> readResp ([], EOF) 4 = Inl ErrNoResponse
   \<and> readResp ([0], EOF) 4 = Inl ErrNotFound
   \<and> readResp ([0, 1], EOF) 4 = Inr [0, 1]
   \<and> readResp ([5, 6, 7, 8, 9], EOF) 4 = Inr [5, 6, 7, 8]
   \<and> int (length [5, 6, 7, 8 :: byte]) \<le> 4"
proof -
  have lim: "(2::int) \<le> 4" by simp
  have t: "take (nat 4) [5, 6, 7, 8, 9 :: byte] = [5, 6, 7, 8]" by simp
  from readResp_classification [of "[]" EOF 4] readResp_classification [of "[0]" EOF 4]
    readResp_classification [of "[0, 1]" EOF 4]
    readResp_classification [of "[5, 6, 7, 8, 9]" EOF 4] lim t
  show ?thesis by simp
qed

section \<open>Block store: Store and Best\<close>

lemma hashes_fold_txIds:
  "hashes (fold (\<lambda>tx bs. bs\<lparr>txIds := (txIds bs)(HT tx \<mapsto> h)\<rparr>) txs bs) = hashes bs"
  "idx (fold (\<lambda>tx bs. bs\<lparr>txIds := (txIds bs)(HT tx \<mapsto> h)\<rparr>) txs bs) = idx bs"
  "fetching (fold (\<lambda>tx bs. bs\<lparr>txIds := (txIds bs)(HT tx \<mapsto> h)\<rparr>) txs bs) = fetching bs"
  by (induction txs arbitrary: bs) simp_all

lemma hashes_Store:
  "hashes (Store HB HT b a bs)
     = (hashes bs)(Header.Height (Header b) \<mapsto> \<lparr>hash = HB b, appHash = a\<rparr>)"
  by (simp add: Store_def Let_def hashes_fold_txIds)

lemma idx_Store: "idx (Store HB HT b a bs) = (idx bs)(HB b \<mapsto> Header.Height (Header b))"
  by (simp add: Store_def Let_def hashes_fold_txIds)

lemma fetching_Store: "fetching (Store HB HT b a bs) = fetching bs"
  by (simp add: Store_def Let_def hashes_fold_txIds)

lemma entries_Cons:
  "entries m (k # ks) = (case m k of None \<Rightarrow> entries m ks | Some v \<Rightarrow> (k, v) # entries m ks)"
  by (simp add: entries_def List.map_filter_simps split: option.splits)

lemma entries_Nil: "entries m [] = []"
  by (simp add: entries_def List.map_filter_simps)

lemma set_entries: "set (entries m ks) = {(k, v). k \<in> set ks \<and> m k = Some v}"
  by (induction ks) (auto simp: entries_Cons entries_Nil split: option.splits)

lemma set_entries_order:
  "iteration_order m ks \<Longrightarrow> set (entries m ks) = {(k, v). m k = Some v}"
  by (auto simp: set_entries iteration_order_def)

lemma keys_entries_order:
  assumes "iteration_order m ks"
  shows "fst ` set (entries m ks) = dom m"
  using assms by (force simp: set_entries_order)

lemma Best_loop_height_fold:
  "sint (fst (Best_loop es best)) = fold max (map (\<lambda>e. sint (fst e)) es) (sint (fst best))"
  by (induction es best rule: Best_loop.induct) (simp_all add: max_def)

lemma Best_loop_height:
  "sint (fst (Best_loop es best)) = Max (insert (sint (fst best)) ((\<lambda>e. sint (fst e)) ` set es))"
  using Max.set_eq_fold [of "sint (fst best)" "map (\<lambda>e. sint (fst e)) es"]
  by (simp add: Best_loop_height_fold)

lemma Best_loop_unchanged:
  "\<forall>e \<in> set es. sint (fst e) < sint (fst best) \<Longrightarrow> Best_loop es best = best"
  by (induction es best rule: Best_loop.induct) auto

lemma Best_loop_entry_or_best:
  "Best_loop es best = best
   \<or> (\<exists>k v. (k, v) \<in> set es \<and> Best_loop es best = (k, hash v, appHash v))"
proof (induction es best rule: Best_loop.induct)
  case (1 best)
  show ?case by simp
next
  case (2 height hashes' rest bestHeight bestHash bestAppHash)
  show ?case
  proof (cases "sint bestHeight \<le> sint height")
    case True
    with 2(1) show ?thesis by auto
  next
    case False
    with 2(2) show ?thesis by auto
  qed
qed

lemma Best_loop_entry:
  assumes "(k, v) \<in> set es" and "sint (fst best) \<le> sint k"
  shows "\<exists>k' v'. (k', v') \<in> set es \<and> Best_loop es best = (k', hash v', appHash v')"
  using assms
proof (induction es best rule: Best_loop.induct)
  case (1 best)
  then show ?case by simp
next
  case (2 height hashes' rest bestHeight bestHash bestAppHash)
  show ?case
  proof (cases "sint bestHeight \<le> sint height")
    case True
    with Best_loop_entry_or_best [of rest "(height, hash hashes', appHash hashes')"]
    show ?thesis by auto
  next
    case False
    with "2.prems" have "(k, v) \<in> set rest" by auto
    with "2.IH"(2) [OF False] "2.prems" False show ?thesis by auto
  qed
qed

text \<open>What Best returns, whatever the order of the iteration.\<close>

lemma Best_height:
  assumes "iteration_order (hashes bs) ks"
  shows "sint (fst (Best ks bs)) = Max (insert 0 (sint ` dom (hashes bs)))"
proof -
  have "(\<lambda>e. sint (fst e)) ` set (entries (hashes bs) ks) = sint ` dom (hashes bs)"
    using keys_entries_order [OF assms] by (simp add: image_image [symmetric])
  then show ?thesis
    by (simp add: Best_def Best_loop_height)
qed

lemma Best_initial:
  assumes "\<And>k. k \<in> dom (hashes bs) \<Longrightarrow> sint k < 0"
  shows "Best ks bs = (0, zeroHash, zeroHash)"
  unfolding Best_def using assms
  by (intro Best_loop_unchanged) (auto simp: set_entries)

lemma Best_entry:
  assumes "iteration_order (hashes bs) ks" and "k \<in> dom (hashes bs)" and "0 \<le> sint k"
  shows "\<exists>k' v'. hashes bs k' = Some v' \<and> Best ks bs = (k', hash v', appHash v')
           \<and> sint k' = Max (insert 0 (sint ` dom (hashes bs)))"
proof -
  from assms(2) obtain v where v: "hashes bs k = Some v" by auto
  with assms(1) have "(k, v) \<in> set (entries (hashes bs) ks)"
    by (simp add: set_entries_order)
  from Best_loop_entry [OF this, of "(0, zeroHash, zeroHash)"] assms(3)
  obtain k' v' where e: "(k', v') \<in> set (entries (hashes bs) ks)"
    and b: "Best ks bs = (k', hash v', appHash v')"
    by (auto simp: Best_def)
  from e have "hashes bs k' = Some v'" by (simp add: set_entries)
  moreover from Best_height [OF assms(1)] b
  have "sint k' = Max (insert 0 (sint ` dom (hashes bs)))" by simp
  ultimately show ?thesis using b by blast
qed


lemma Best_nonneg: "0 \<le> sint (fst (Best ks bs))"
proof -
  have "finite ((\<lambda>e. sint (fst e)) ` set (entries (hashes bs) ks))" by simp
  then show ?thesis
    by (simp add: Best_def Best_loop_height)
qed

lemma Max_insert_dom:
  fixes S :: "64 word set"
  shows "Max (insert 0 (insert (sint h) (sint ` S))) = max (sint h) (Max (insert 0 (sint ` S)))"
proof -
  have "insert 0 (insert (sint h) (sint ` S)) = insert (sint h) (insert 0 (sint ` S))"
    by auto
  then show ?thesis by simp
qed

lemma Best_Store_height:
  assumes "iteration_order (hashes bs) ks"
    and "iteration_order (hashes (Store HB HT b a bs)) ks'"
  shows "sint (fst (Best ks' (Store HB HT b a bs)))
      = max (sint (Header.Height (Header b))) (sint (fst (Best ks bs)))"
  by (simp add: Best_height [OF assms(1)] Best_height [OF assms(2)] hashes_Store
      Max_insert_dom del: Max_insert)

text \<open>
  C2. After any \<^verbatim>\<open>Store(b, appHash)\<close> the height that \<^verbatim>\<open>Best()\<close> reports is at least the
  height it reported before, and if the header height of \<open>b\<close> is strictly greater than
  that earlier height, \<^verbatim>\<open>Best()\<close> returns the height and hash of \<open>b\<close> and the app hash
  passed to \<^verbatim>\<open>Store\<close>; in whatever order the two calls of \<^verbatim>\<open>Best\<close> range over the map.
\<close>

theorem Store_Best_monotone:
  assumes "iteration_order (hashes bs) ks"
    and "iteration_order (hashes (Store HB HT b a bs)) ks'"
  shows "sint (fst (Best ks bs)) \<le> sint (fst (Best ks' (Store HB HT b a bs)))
    \<and> (sint (fst (Best ks bs)) < sint (Header.Height (Header b))
        \<longrightarrow> Best ks' (Store HB HT b a bs) = (Header.Height (Header b), HB b, a))"
proof (intro conjI impI)
  let ?h = "Header.Height (Header b)"
  let ?bs' = "Store HB HT b a bs"
  have new: "sint (fst (Best ks' ?bs'))
      = max (sint ?h) (sint (fst (Best ks bs)))"
    by (rule Best_Store_height [OF assms])
  then show "sint (fst (Best ks bs)) \<le> sint (fst (Best ks' ?bs'))"
    by simp
  assume higher: "sint (fst (Best ks bs)) < sint ?h"
  with Best_nonneg [of ks bs] have pos: "0 \<le> sint ?h" by simp
  have "?h \<in> dom (hashes ?bs')" by (simp add: hashes_Store)
  from Best_entry [OF assms(2) this pos]
  obtain k' v' where v': "hashes ?bs' k' = Some v'"
    and best: "Best ks' ?bs' = (k', hash v', appHash v')"
    by blast
  from new higher best have "sint k' = sint ?h" by simp
  then have "k' = ?h" by (rule signed_word_eqI)
  with v' have "v' = \<lparr>hash = HB b, appHash = a\<rparr>" by (simp add: hashes_Store)
  with best \<open>k' = ?h\<close> show "Best ks' ?bs' = (?h, HB b, a)" by simp
qed

text \<open>
  C10. \<^verbatim>\<open>Best()\<close> on a store into which nothing was stored returns height 0 and two
  all-zero hashes; the height it returns is never negative; and storing a block whose
  header height is negative leaves the answer of \<^verbatim>\<open>Best()\<close> as it was.
\<close>

theorem Best_never_negative:
  "Best ks NewMemBS = (0, zeroHash, zeroHash)
   \<and> 0 \<le> sint (fst (Best ks bs))
   \<and> (iteration_order (hashes bs) ks \<and> iteration_order (hashes (Store HB HT b a bs)) ks'
        \<and> sint (Header.Height (Header b)) < 0
      \<longrightarrow> Best ks' (Store HB HT b a bs) = Best ks bs)"
proof (intro conjI impI)
  show "Best ks NewMemBS = (0, zeroHash, zeroHash)"
    by (rule Best_initial) (simp add: NewMemBS_def)
  show "0 \<le> sint (fst (Best ks bs))"
    by (rule Best_nonneg)
next
  let ?h = "Header.Height (Header b)"
  let ?bs' = "Store HB HT b a bs"
  assume "iteration_order (hashes bs) ks \<and> iteration_order (hashes ?bs') ks' \<and> sint ?h < 0"
  then have o: "iteration_order (hashes bs) ks" and o': "iteration_order (hashes ?bs') ks'"
    and neg: "sint ?h < 0"
    by simp_all
  have same: "sint (fst (Best ks' ?bs')) = sint (fst (Best ks bs))"
    using neg Best_nonneg [of ks bs] Best_Store_height [OF o o'] by simp
  show "Best ks' ?bs' = Best ks bs"
  proof (cases "\<exists>k \<in> dom (hashes bs). 0 \<le> sint k")
    case False
    then have "Best ks bs = (0, zeroHash, zeroHash)"
      by (intro Best_initial) (auto simp: not_le)
    moreover from False neg have "Best ks' ?bs' = (0, zeroHash, zeroHash)"
      by (intro Best_initial) (auto simp: not_le hashes_Store)
    ultimately show ?thesis by simp
  next
    case True
    then obtain k where k: "k \<in> dom (hashes bs)" "0 \<le> sint k" by blast
    from Best_entry [OF o k]
    obtain k1 v1 where 1: "hashes bs k1 = Some v1" "Best ks bs = (k1, hash v1, appHash v1)"
      by blast
    from k have "k \<in> dom (hashes ?bs')" by (simp add: hashes_Store)
    from Best_entry [OF o' this k(2)]
    obtain k2 v2 where 2: "hashes ?bs' k2 = Some v2" "Best ks' ?bs' = (k2, hash v2, appHash v2)"
      by blast
    from same 1 2 have "sint k2 = sint k1" by simp
    then have eq: "k2 = k1" by (rule signed_word_eqI)
    from 1(2) Best_nonneg [of ks bs] neg have "k1 \<noteq> ?h" by auto
    with 1(1) 2(1) eq have "v2 = v1" by (simp add: hashes_Store)
    with 1 2 eq show ?thesis by simp
  qed
qed


lemma hashes_store1:
  "hashes store1 = [1 \<mapsto> \<lparr>hash = sampleHB block1, appHash = appHash1\<rparr>]"
  by (simp add: store1_def hashes_Store NewMemBS_def block1_def)

lemma Best_store1: "Best [1] store1 = (1, sampleHB block1, appHash1)"
  by (simp add: Best_def hashes_store1 entries_Cons entries_Nil)

theorem Store_Best_monotone_witness:
  "iteration_order (hashes store1) [1]
   \<and> iteration_order (hashes (Store sampleHB sampleHT block2 appHash2 store1)) [2, 1]
   \<and> sint (fst (Best [1] store1))
       \<le> sint (fst (Best [2, 1] (Store sampleHB sampleHT block2 appHash2 store1)))
   \<and> sint (fst (Best [1] store1)) < sint (Header.Height (Header block2))
   \<and> Best [2, 1] (Store sampleHB sampleHT block2 appHash2 store1)
       = (2, sampleHB block2, appHash2)"
proof -
  have o: "iteration_order (hashes store1) [1]"
    by (simp add: iteration_order_def hashes_store1)
  have o': "iteration_order (hashes (Store sampleHB sampleHT block2 appHash2 store1)) [2, 1]"
    by (auto simp: iteration_order_def hashes_Store hashes_store1 block2_def)
  have lt: "sint (fst (Best [1] store1)) < sint (Header.Height (Header block2))"
    by (simp add: Best_store1 block2_def)
  from Store_Best_monotone [OF o o'] lt o o' show ?thesis
    by (simp add: block2_def)
qed

theorem Best_never_negative_witness:
  "iteration_order (hashes store1) [1]
   \<and> iteration_order (hashes (Store sampleHB sampleHT blockNeg appHash2 store1)) [- 1, 1]
   \<and> sint (Header.Height (Header blockNeg)) < 0
   \<and> Best [- 1, 1] (Store sampleHB sampleHT blockNeg appHash2 store1)
       = (1, sampleHB block1, appHash1)"
proof -
  have o: "iteration_order (hashes store1) [1]"
    by (simp add: iteration_order_def hashes_store1)
  have o': "iteration_order (hashes (Store sampleHB sampleHT blockNeg appHash2 store1)) [- 1, 1]"
    by (auto simp: iteration_order_def hashes_Store hashes_store1 blockNeg_def)
  have neg: "sint (Header.Height (Header blockNeg)) < 0"
    by (simp add: blockNeg_def)
  from Best_never_negative [where ks = "[1]" and bs = store1 and HB = sampleHB
      and HT = sampleHT and b = blockNeg and a = appHash2 and ks' = "[- 1, 1]"]
    o o' neg Best_store1
  show ?thesis by simp
qed

section \<open>Block store: PreFetch\<close>

lemma fetching_apply_calls:
  assumes "fetching bs h = Some True" and "CallRelease h \<notin> set calls"
  shows "fetching (apply_calls HB HT calls bs) h = Some True"
  using assms unfolding apply_calls_def
proof (induction calls arbitrary: bs)
  case Nil
  then show ?case by simp
next
  case (Cons c calls)
  have "fetching (apply_call HB HT c bs) h = Some True"
    using Cons.prems
    by (cases c) (auto simp: PreFetch_def release_def fetching_Store)
  with Cons show ?case by simp
qed

lemma idx_apply_calls:
  assumes "idx bs h = None" and "\<forall>b a. CallStore b a \<in> set calls \<longrightarrow> HB b \<noteq> h"
  shows "idx (apply_calls HB HT calls bs) h = None"
  using assms unfolding apply_calls_def
proof (induction calls arbitrary: bs)
  case Nil
  then show ?case by simp
next
  case (Cons c calls)
  have "idx (apply_call HB HT c bs) h = None"
    using Cons.prems
    by (cases c) (auto simp: PreFetch_def release_def idx_Store)
  moreover from Cons.prems have "\<forall>b a. CallStore b a \<in> set calls \<longrightarrow> HB b \<noteq> h"
    by simp
  ultimately have "idx (fold (apply_call HB HT) calls (apply_call HB HT c bs)) h = None"
    by (rule Cons.IH)
  then show ?case by simp
qed

text \<open>
  C3. For a hash \<open>h\<close> that is neither stored nor being fetched, \<^verbatim>\<open>PreFetch(h)\<close> returns
  true; after it, whatever calls are made on the store, as long as the release closure for
  \<open>h\<close> is not run, every \<^verbatim>\<open>PreFetch(h)\<close> returns false; once the closure returned by the
  first call has run (and no block with hash \<open>h\<close> was stored meanwhile), \<^verbatim>\<open>PreFetch(h)\<close>
  returns true again. \<^verbatim>\<open>PreFetch\<close> of a stored block returns false.
\<close>

theorem PreFetch_exclusive:
  assumes "idx bs h = None" and "fetching bs h \<noteq> Some True"
    and "PreFetch h bs = (ok, rel, bs1)"
    and "CallRelease h \<notin> set calls"
  shows "ok
    \<and> \<not> fst (PreFetch h (apply_calls HB HT calls bs1))
    \<and> ((\<forall>b a. CallStore b a \<in> set calls \<longrightarrow> HB b \<noteq> h)
         \<longrightarrow> fst (PreFetch h (rel (apply_calls HB HT calls bs1))))
    \<and> (Have h' bs' \<longrightarrow> \<not> fst (PreFetch h' bs'))"
proof -
  from assms(1-3) have ok: ok and rel: "rel = release h"
    and bs1: "bs1 = bs\<lparr>fetching := (fetching bs)(h \<mapsto> True)\<rparr>"
    by (auto simp: PreFetch_def)
  from bs1 have "fetching bs1 h = Some True" by simp
  from fetching_apply_calls [OF this assms(4)]
  have busy: "fetching (apply_calls HB HT calls bs1) h = Some True" .
  then have second: "\<not> fst (PreFetch h (apply_calls HB HT calls bs1))"
    by (simp add: PreFetch_def)
  have third: "fst (PreFetch h (rel (apply_calls HB HT calls bs1)))"
    if "\<forall>b a. CallStore b a \<in> set calls \<longrightarrow> HB b \<noteq> h"
  proof -
    from bs1 assms(1) have "idx bs1 h = None" by simp
    from idx_apply_calls [OF this that]
    show ?thesis by (simp add: PreFetch_def rel release_def)
  qed
  have "\<not> fst (PreFetch h' bs')" if "Have h' bs'"
    using that by (simp add: PreFetch_def Have_def)
  with ok second third show ?thesis by blast
qed

theorem PreFetch_exclusive_witness:
  "idx NewMemBS zeroHash = None \<and> fetching NewMemBS zeroHash \<noteq> Some True
   \<and> fst (PreFetch zeroHash NewMemBS)
   \<and> \<not> fst (PreFetch zeroHash
        (apply_calls sampleHB sampleHT
          [CallPreFetch zeroHash, CallPreFetch appHash1, CallStore block1 appHash1, CallRelease appHash1]
          (snd (snd (PreFetch zeroHash NewMemBS)))))
   \<and> fst (PreFetch zeroHash
        (fst (snd (PreFetch zeroHash NewMemBS))
          (apply_calls sampleHB sampleHT
            [CallPreFetch zeroHash, CallPreFetch appHash1, CallStore block1 appHash1, CallRelease appHash1]
            (snd (snd (PreFetch zeroHash NewMemBS))))))
   \<and> Have (sampleHB block1) store1
   \<and> \<not> fst (PreFetch (sampleHB block1) store1)"
proof -
  let ?calls = "[CallPreFetch zeroHash, CallPreFetch appHash1, CallStore block1 appHash1,
    CallRelease appHash1]"
  let ?r = "PreFetch zeroHash NewMemBS"
  have a: "idx NewMemBS zeroHash = None" "fetching NewMemBS zeroHash \<noteq> Some True"
    by (simp_all add: NewMemBS_def)
  have ne: "appHash1 \<noteq> zeroHash" "sampleHB block1 \<noteq> zeroHash"
    by (simp_all add: appHash1_def zeroHash_def sampleHB_def block1_def HashLen_def)
  then have c: "CallRelease zeroHash \<notin> set ?calls"
    by auto
  have d: "\<forall>b a. CallStore b a \<in> set ?calls \<longrightarrow> sampleHB b \<noteq> zeroHash"
    using ne by auto
  have e: "Have (sampleHB block1) store1"
    by (simp add: Have_def store1_def idx_Store)
  from PreFetch_exclusive [OF a, of "fst ?r" "fst (snd ?r)" "snd (snd ?r)" ?calls
      sampleHB sampleHT "sampleHB block1" store1] c d e a
  show ?thesis by simp
qed

section \<open>Dataset module: fee against price\<close>

lemma spends_append: "spends (es @ es') = spends es @ spends es'"
  by (induction es rule: spends.induct) simp_all

lemma compareAndSpend_fee_rule:
  assumes "compareAndSpend u price tx = (err, effs)"
  shows "if TransactionBody.Fee (Body tx) < price
         then err = Some ErrInsufficientFee \<and> effs = []
         else err = accountStore_Spend u \<lparr>AccountPubKey = Sender tx, Amount = price,
                                 Spend.Nonce = TransactionBody.Nonce (Body tx)\<rparr>
           \<and> effs = [SpendCall \<lparr>AccountPubKey = Sender tx, Amount = price,
                                 Spend.Nonce = TransactionBody.Nonce (Body tx)\<rparr>]"
  using assms by (auto simp: compareAndSpend_def Let_def split: if_splits)

lemma Deploy_fee:
  assumes "PriceDeploy u schema = (Some price, None)"
  shows "\<exists>err effs. Deploy u schema tx = Some (resp price, err, effs)
    \<and> (if TransactionBody.Fee (Body tx) < price
        then err = Some ErrInsufficientFee \<and> spends effs = []
        else spends effs = [\<lparr>AccountPubKey = Sender tx, Amount = price,
                              Spend.Nonce = TransactionBody.Nonce (Body tx)\<rparr>])"
proof (cases "compareAndSpend u price tx")
  case (Pair err effs)
  from compareAndSpend_fee_rule [OF Pair] assms Pair show ?thesis
    by (cases err) (auto simp: Deploy_def spends_append Let_def split: if_splits)
qed

lemma Drop_fee:
  assumes "PriceDrop u dbid = (Some price, None)"
  shows "\<exists>err effs. Drop u dbid tx = Some (resp price, err, effs)
    \<and> (if TransactionBody.Fee (Body tx) < price
        then err = Some ErrInsufficientFee \<and> spends effs = []
        else spends effs = [\<lparr>AccountPubKey = Sender tx, Amount = price,
                              Spend.Nonce = TransactionBody.Nonce (Body tx)\<rparr>])"
proof (cases "compareAndSpend u price tx")
  case (Pair err effs)
  from compareAndSpend_fee_rule [OF Pair] assms Pair show ?thesis
    by (cases err) (auto simp: Drop_def spends_append Let_def split: if_splits)
qed

lemma Execute_fee:
  assumes "PriceExecute u dbid action args = (Some price, None)"
  shows "\<exists>err effs. Execute u dbid action args tx = Some (resp price, err, effs)
    \<and> (if TransactionBody.Fee (Body tx) < price
        then err = Some ErrInsufficientFee \<and> spends effs = []
        else spends effs = [\<lparr>AccountPubKey = Sender tx, Amount = price,
                              Spend.Nonce = TransactionBody.Nonce (Body tx)\<rparr>])"
proof (cases "compareAndSpend u price tx")
  case (Pair err effs)
  from compareAndSpend_fee_rule [OF Pair] assms Pair show ?thesis
    by (cases err) (auto simp: Execute_def spends_append Let_def split: if_splits)
qed

text \<open>
  C5. For each of \<^verbatim>\<open>Deploy\<close>, \<^verbatim>\<open>Drop\<close> and \<^verbatim>\<open>Execute\<close>, once the pricer has computed a
  price: if the transaction's fee is strictly less than the price, the operation returns
  the insufficient-fee error and the account store's \<^verbatim>\<open>Spend\<close> is not called; if the fee
  is at least the price, \<^verbatim>\<open>Spend\<close> is called, once, with the price as its amount (not the
  fee); and in both cases the response carries the price as its fee.
\<close>

theorem fee_compared_before_spend:
  "(PriceDeploy u schema = (Some price1, None) \<longrightarrow>
      (\<exists>err effs. Deploy u schema tx = Some (resp price1, err, effs)
        \<and> (if TransactionBody.Fee (Body tx) < price1
            then err = Some ErrInsufficientFee \<and> spends effs = []
            else spends effs = [\<lparr>AccountPubKey = Sender tx, Amount = price1,
                                  Spend.Nonce = TransactionBody.Nonce (Body tx)\<rparr>])))
   \<and> (PriceDrop u dbid = (Some price2, None) \<longrightarrow>
      (\<exists>err effs. Drop u dbid tx = Some (resp price2, err, effs)
        \<and> (if TransactionBody.Fee (Body tx) < price2
            then err = Some ErrInsufficientFee \<and> spends effs = []
            else spends effs = [\<lparr>AccountPubKey = Sender tx, Amount = price2,
                                  Spend.Nonce = TransactionBody.Nonce (Body tx)\<rparr>])))
   \<and> (PriceExecute u dbid action args = (Some price3, None) \<longrightarrow>
      (\<exists>err effs. Execute u dbid action args tx = Some (resp price3, err, effs)
        \<and> (if TransactionBody.Fee (Body tx) < price3
            then err = Some ErrInsufficientFee \<and> spends effs = []
            else spends effs = [\<lparr>AccountPubKey = Sender tx, Amount = price3,
                                  Spend.Nonce = TransactionBody.Nonce (Body tx)\<rparr>])))
   \<and> ExecutionResponse.Fee (resp price) = price"
  using Deploy_fee [of u schema price1 tx] Drop_fee [of u dbid price2 tx]
    Execute_fee [of u dbid action args price3 tx]
  by (simp add: resp_def)

text \<open>
  The sample module prices every operation at 10: a fee of 9 is refused before any call,
  a fee of 12 is charged 10.
\<close>

theorem fee_compared_before_spend_witness:
  "PriceDeploy sampleModule ''schema'' = (Some 10, None)
   \<and> PriceDrop sampleModule ''dbid'' = (Some 10, None)
   \<and> PriceExecute sampleModule ''dbid'' ''act'' [] = (Some 10, None)
   \<and> Deploy sampleModule ''schema'' (sampleTx 9) = Some (resp 10, Some ErrInsufficientFee, [])
   \<and> Deploy sampleModule ''schema'' (sampleTx 12)
      = Some (resp 10, None,
          [SpendCall \<lparr>AccountPubKey = [65], Amount = 10, Spend.Nonce = 1\<rparr>,
           CreateDatasetCall ''schema'' \<lparr>PublicKey = [65], AuthType = ''ed25519''\<rparr>])
   \<and> Drop sampleModule ''dbid'' (sampleTx 9) = Some (resp 10, Some ErrInsufficientFee, [])
   \<and> Drop sampleModule ''dbid'' (sampleTx 12)
      = Some (resp 10, None,
          [SpendCall \<lparr>AccountPubKey = [65], Amount = 10, Spend.Nonce = 1\<rparr>,
           DropDatasetCall ''dbid'' \<lparr>PublicKey = [65], AuthType = ''ed25519''\<rparr>])
   \<and> Execute sampleModule ''dbid'' ''act'' [] (sampleTx 9)
      = Some (resp 10, Some ErrInsufficientFee, [])
   \<and> Execute sampleModule ''dbid'' ''act'' [] (sampleTx 12)
      = Some (resp 10, None,
          [SpendCall \<lparr>AccountPubKey = [65], Amount = 10, Spend.Nonce = 1\<rparr>,
           ExecuteCall ''dbid'' ''act'' [] \<lparr>PublicKey = [65], AuthType = ''ed25519''\<rparr>])
   \<and> ExecutionResponse.Fee (resp 10) = 10"
proof -
  have p: "PriceDeploy sampleModule ''schema'' = (Some 10, None)"
    "PriceDrop sampleModule ''dbid'' = (Some 10, None)"
    "PriceExecute sampleModule ''dbid'' ''act'' [] = (Some 10, None)"
    by (simp_all add: sampleModule_def)
  have low: "TransactionBody.Fee (Body (sampleTx 9)) < 10"
    and high: "\<not> TransactionBody.Fee (Body (sampleTx 12)) < 10"
    by (simp_all add: sampleTx_def)
  have run: "Deploy sampleModule ''schema'' (sampleTx 12)
      = Some (resp 10, None,
          [SpendCall \<lparr>AccountPubKey = [65], Amount = 10, Spend.Nonce = 1\<rparr>,
           CreateDatasetCall ''schema'' \<lparr>PublicKey = [65], AuthType = ''ed25519''\<rparr>])"
    "Drop sampleModule ''dbid'' (sampleTx 12)
      = Some (resp 10, None,
          [SpendCall \<lparr>AccountPubKey = [65], Amount = 10, Spend.Nonce = 1\<rparr>,
           DropDatasetCall ''dbid'' \<lparr>PublicKey = [65], AuthType = ''ed25519''\<rparr>])"
    "Execute sampleModule ''dbid'' ''act'' [] (sampleTx 12)
      = Some (resp 10, None,
          [SpendCall \<lparr>AccountPubKey = [65], Amount = 10, Spend.Nonce = 1\<rparr>,
           ExecuteCall ''dbid'' ''act'' [] \<lparr>PublicKey = [65], AuthType = ''ed25519''\<rparr>])"
    by (simp_all add: Deploy_def Drop_def Execute_def sampleModule_def sampleTx_def
        compareAndSpend_def getUserIdentifier_def)
  from fee_compared_before_spend [of sampleModule "''schema''" 10 "sampleTx 9" "''dbid''" 10
      "''act''" "[]" 10 10] p low
  have "\<exists>effs. Deploy sampleModule ''schema'' (sampleTx 9)
          = Some (resp 10, Some ErrInsufficientFee, effs)"
    "\<exists>effs. Drop sampleModule ''dbid'' (sampleTx 9)
          = Some (resp 10, Some ErrInsufficientFee, effs)"
    "\<exists>effs. Execute sampleModule ''dbid'' ''act'' [] (sampleTx 9)
          = Some (resp 10, Some ErrInsufficientFee, effs)"
    and fee: "ExecutionResponse.Fee (resp 10) = 10"
    by auto
  then have "Deploy sampleModule ''schema'' (sampleTx 9) = Some (resp 10, Some ErrInsufficientFee, [])"
    "Drop sampleModule ''dbid'' (sampleTx 9) = Some (resp 10, Some ErrInsufficientFee, [])"
    "Execute sampleModule ''dbid'' ''act'' [] (sampleTx 9)
      = Some (resp 10, Some ErrInsufficientFee, [])"
    by (auto simp: Deploy_def Drop_def Execute_def sampleModule_def sampleTx_def
        compareAndSpend_def)
  with p run fee show ?thesis by simp
qed

section \<open>Mempool admission: nonce ordering\<close>


lemma loadView_fresh:
  assumes "views mp s = None" and "\<forall>b n. store s = Some (b, n) \<longrightarrow> n = 0"
  shows "chainNonce (loadView store mp s) = 0 \<and> admittedGap (loadView store mp s) = 0"
  using assms by (auto simp: loadView_def split: option.splits)

lemma loadView_seen: "views mp s = Some v \<Longrightarrow> loadView store mp s = v"
  by (simp add: loadView_def)

text \<open>One admission without gas, for a sender whose view is known.\<close>

lemma applyTransaction_next:
  assumes "pending mp (hashTx (newTx n s)) = None"
    and "views mp s = Some v" and "chainNonce v = 0" and "admittedGap v + 1 = n"
  shows "\<exists>mp'. applyTransaction hashTx False store (newTx n s) mp = Inr mp'
    \<and> pending mp' = (pending mp)(hashTx (newTx n s) \<mapsto> newTx n s)
    \<and> (\<exists>v'. views mp' s = Some v' \<and> chainNonce v' = 0 \<and> admittedGap v' = n)"
  using assms
  by (auto simp: applyTransaction_def loadView_seen newTx_def Let_def)

lemma applyTransaction_first:
  assumes "\<forall>b n. store s = Some (b, n) \<longrightarrow> n = 0"
  shows "\<exists>mp'. applyTransaction hashTx False store (newTx 1 s) emptyMempool = Inr mp'
    \<and> pending mp' = [hashTx (newTx 1 s) \<mapsto> newTx 1 s]
    \<and> (\<exists>v'. views mp' s = Some v' \<and> chainNonce v' = 0 \<and> admittedGap v' = 1)"
proof -
  have "views (emptyMempool :: 'a Mempool) s = None"
    by (simp add: emptyMempool_def)
  from loadView_fresh [where store = store and s = s, OF this assms] show ?thesis
    by (auto simp: applyTransaction_def emptyMempool_def newTx_def Let_def)
qed

lemma applyTransaction_duplicate:
  assumes "pending mp (hashTx t) = Some t'"
  shows "applyTransaction hashTx gas store t mp = Inl DuplicateTx"
  using assms by (simp add: applyTransaction_def)

lemma applyTransaction_gap:
  assumes "pending mp (hashTx (newTx n s)) = None"
    and "views mp s = Some v" and "chainNonce v + admittedGap v + 1 < n"
  shows "applyTransaction hashTx False store (newTx n s) mp = Inl OutOfOrderNonce"
  using assms
  by (auto simp: applyTransaction_def loadView_seen newTx_def Let_def)

text \<open>
  C4. With gas disabled and a sender whose committed nonce is 0: nonces 1 and 2 are
  admitted, nonce 2 again is rejected as a duplicate, nonce 4 is rejected as out of order
  while 3 is missing, then 3 is admitted and after it 4, which leaves the tracked nonce of
  the sender at 4. (The hash function tells the four transactions apart.)
\<close>

theorem mempool_nonce_ordering:
  assumes "distinct (map hashTx [newTx 1 s, newTx 2 s, newTx 3 s, newTx 4 s])"
    and "\<forall>b n. store s = Some (b, n) \<longrightarrow> n = 0"
  shows "fst (submitAll hashTx False store
            [newTx 1 s, newTx 2 s, newTx 2 s, newTx 4 s, newTx 3 s, newTx 4 s] emptyMempool)
          = [None, None, Some DuplicateTx, Some OutOfOrderNonce, None, None]
    \<and> trackedNonce (snd (submitAll hashTx False store
            [newTx 1 s, newTx 2 s, newTx 2 s, newTx 4 s, newTx 3 s, newTx 4 s] emptyMempool)) s
          = Some 4"
proof -
  let ?t1 = "newTx 1 s" and ?t2 = "newTx 2 s" and ?t3 = "newTx 3 s" and ?t4 = "newTx 4 s"
  from assms(1) have ne: "hashTx ?t1 \<noteq> hashTx ?t2" "hashTx ?t1 \<noteq> hashTx ?t3"
    "hashTx ?t1 \<noteq> hashTx ?t4" "hashTx ?t2 \<noteq> hashTx ?t3" "hashTx ?t2 \<noteq> hashTx ?t4"
    "hashTx ?t3 \<noteq> hashTx ?t4"
    by auto
  from applyTransaction_first [where store = store and s = s and hashTx = hashTx, OF assms(2)]
  obtain mp1 v1 where 1: "applyTransaction hashTx False store ?t1 emptyMempool = Inr mp1"
    "pending mp1 = [hashTx ?t1 \<mapsto> ?t1]"
    "views mp1 s = Some v1" "chainNonce v1 = 0" "admittedGap v1 = 1"
    by blast
  from applyTransaction_next [of mp1 hashTx 2 s v1 store] 1 ne
  obtain mp2 v2 where 2: "applyTransaction hashTx False store ?t2 mp1 = Inr mp2"
    "pending mp2 = [hashTx ?t1 \<mapsto> ?t1, hashTx ?t2 \<mapsto> ?t2]"
    "views mp2 s = Some v2" "chainNonce v2 = 0" "admittedGap v2 = 2"
    by auto
  have 3: "applyTransaction hashTx False store ?t2 mp2 = Inl DuplicateTx"
    by (rule applyTransaction_duplicate [of _ _ _ ?t2]) (simp add: 2)
  have 4: "applyTransaction hashTx False store ?t4 mp2 = Inl OutOfOrderNonce"
    using 2 ne by (intro applyTransaction_gap [of _ _ _ _ v2]) auto
  from applyTransaction_next [of mp2 hashTx 3 s v2 store] 2 ne
  obtain mp3 v3 where 5: "applyTransaction hashTx False store ?t3 mp2 = Inr mp3"
    "pending mp3 = [hashTx ?t1 \<mapsto> ?t1, hashTx ?t2 \<mapsto> ?t2, hashTx ?t3 \<mapsto> ?t3]"
    "views mp3 s = Some v3" "chainNonce v3 = 0" "admittedGap v3 = 3"
    by auto
  from applyTransaction_next [of mp3 hashTx 4 s v3 store] 5 ne
  obtain mp4 v4 where 6: "applyTransaction hashTx False store ?t4 mp3 = Inr mp4"
    "views mp4 s = Some v4" "chainNonce v4 = 0" "admittedGap v4 = 4"
    by auto
  have "submitAll hashTx False store [?t1, ?t2, ?t2, ?t4, ?t3, ?t4] emptyMempool
      = ([None, None, Some DuplicateTx, Some OutOfOrderNonce, None, None], mp4)"
    by (simp add: 1(1) 2(1) 3 4 5(1) 6(1) del: One_nat_def)
  with 6 show ?thesis by (simp add: trackedNonce_def)
qed

theorem mempool_nonce_ordering_witness:
  "distinct (map nonce [newTx 1 ''A'', newTx 2 ''A'', newTx 3 ''A'', newTx 4 ''A''])
   \<and> fst (submitAll nonce False Map.empty
        [newTx 1 ''A'', newTx 2 ''A'', newTx 2 ''A'', newTx 4 ''A'', newTx 3 ''A'', newTx 4 ''A'']
        emptyMempool)
      = [None, None, Some DuplicateTx, Some OutOfOrderNonce, None, None]
   \<and> trackedNonce (snd (submitAll nonce False Map.empty
        [newTx 1 ''A'', newTx 2 ''A'', newTx 2 ''A'', newTx 4 ''A'', newTx 3 ''A'', newTx 4 ''A'']
        emptyMempool)) ''A''
      = Some 4"
proof -
  have d: "distinct (map nonce [newTx 1 ''A'', newTx 2 ''A'', newTx 3 ''A'', newTx 4 ''A''])"
    by (simp add: newTx_def)
  have s: "\<forall>b n. (Map.empty :: string \<rightharpoonup> int \<times> nat) ''A'' = Some (b, n) \<longrightarrow> n = 0"
    by simp
  from mempool_nonce_ordering [where hashTx = nonce and s = "''A''" and store = Map.empty, OF d s] d
  show ?thesis by simp
qed

end
